theory Spec2Isabelle
  imports Main "HOL-Library.Multiset"
begin

section \<open>JavaScript strings and numbers\<close>

text \<open>
  A JavaScript string is modelled as a \<^typ>\<open>string\<close>: a list of 8-bit code units (the
  Latin-1 range of the UTF-16 code units). Numbers that the code only uses as integers
  are \<^typ>\<open>int\<close>; \<open>NaN\<close> is \<open>None\<close> of an \<^typ>\<open>int option\<close>.
\<close>

definition isDigit :: "char \<Rightarrow> bool" where
  "isDigit c \<longleftrightarrow> 48 \<le> (of_char c :: nat) \<and> (of_char c :: nat) \<le> 57"

definition digitVal :: "char \<Rightarrow> nat" where
  "digitVal c = (of_char c :: nat) - 48"

definition digitChar :: "nat \<Rightarrow> char" where
  "digitChar n = char_of (48 + n)"

text \<open>The pattern \<open>[0-9]*\<close> (and \<open>\d*\<close>, which is the same class without the unicode flag).\<close>

definition allDigits :: "string \<Rightarrow> bool" where
  "allDigits s \<longleftrightarrow> list_all isDigit s"

text \<open>\<open>Number.prototype.toString()\<close> on an integer (below the exponent notation).\<close>

fun natToString :: "nat \<Rightarrow> string" where
  "natToString n =
     (if n < 10 then [digitChar n] else natToString (n div 10) @ [digitChar (n mod 10)])"

declare natToString.simps [simp del]

definition intToString :: "int \<Rightarrow> string" where
  "intToString i = (if i < 0 then CHR ''-'' # natToString (nat (- i)) else natToString (nat i))"

text \<open>\<open>NaN.toString()\<close> is the string \<open>NaN\<close>.\<close>

definition numToString :: "int option \<Rightarrow> string" where
  "numToString x = (case x of None \<Rightarrow> ''NaN'' | Some i \<Rightarrow> intToString i)"

text \<open>\<open>s.padStart(n, '0')\<close>.\<close>

definition padStart :: "nat \<Rightarrow> string \<Rightarrow> string" where
  "padStart n s = replicate (n - length s) (CHR ''0'') @ s"

text \<open>\<open>s.substring(a, b)\<close> for \<open>a \<le> b\<close>; both indices are clamped to the length.\<close>

definition substring :: "string \<Rightarrow> nat \<Rightarrow> nat \<Rightarrow> string" where
  "substring s a b = take (b - a) (drop a s)"

text \<open>
  \<open>parseInt(s)\<close> with no radix: leading white space is skipped, one sign is read, a
  \<open>0x\<close>/\<open>0X\<close> prefix selects radix 16, and the longest prefix of digits is the value;
  no digit at all gives \<open>NaN\<close>. White space is the part of \<open>StrWhiteSpaceChar\<close> below
  code unit 256.
\<close>

definition isWhiteSpace :: "char \<Rightarrow> bool" where
  "isWhiteSpace c \<longleftrightarrow> (of_char c :: nat) \<in> {9, 10, 11, 12, 13, 32, 160}"

definition isHexDigit :: "char \<Rightarrow> bool" where
  "isHexDigit c \<longleftrightarrow> isDigit c
     \<or> (65 \<le> (of_char c :: nat) \<and> (of_char c :: nat) \<le> 70)
     \<or> (97 \<le> (of_char c :: nat) \<and> (of_char c :: nat) \<le> 102)"

definition hexVal :: "char \<Rightarrow> nat" where
  "hexVal c = (if isDigit c then digitVal c
               else if (of_char c :: nat) \<le> 70 then (of_char c :: nat) - 55
               else (of_char c :: nat) - 87)"

definition parseInt :: "string \<Rightarrow> int option" where
  "parseInt s =
     (let s1 = dropWhile isWhiteSpace s;
          neg = (take 1 s1 = ''-'');
          s2 = (if take 1 s1 = ''-'' \<or> take 1 s1 = ''+'' then drop 1 s1 else s1);
          hex = (take 2 s2 = ''0x'' \<or> take 2 s2 = ''0X'');
          z = (if hex then takeWhile isHexDigit (drop 2 s2) else takeWhile isDigit s2);
          v = (if hex then foldl (\<lambda>a c. a * 16 + hexVal c) 0 z
               else foldl (\<lambda>a c. a * 10 + digitVal c) 0 z)
      in if z = [] then None else Some (if neg then - int v else int v))"

section \<open>Dates\<close>

text \<open>
  A \<open>Date\<close> object is modelled by what its local-time getters read: \<open>None\<close> is the
  invalid date, \<open>Some d\<close> a date on local day number \<open>d\<close> (days since 1 January 1970).
  The calendar functions are those of the ECMAScript specification (\<open>DayFromYear\<close>,
  \<open>YearFromTime\<close>, \<open>MonthFromTime\<close>, \<open>DateFromTime\<close>, \<open>MakeDay\<close>), on day numbers.
\<close>

type_synonym jsDate = "int option"

definition DayFromYear :: "int \<Rightarrow> int" where
  "DayFromYear y =
     365 * (y - 1970) + (y - 1969) div 4 - (y - 1901) div 100 + (y - 1601) div 400"

definition InLeapYear :: "int \<Rightarrow> bool" where
  "InLeapYear y \<longleftrightarrow> (y mod 4 = 0 \<and> y mod 100 \<noteq> 0) \<or> y mod 400 = 0"

text \<open>The largest year whose first day is not after day \<open>d\<close>, found from an estimate.\<close>

definition YearFromDay :: "int \<Rightarrow> int" where
  "YearFromDay d =
     (let y = 1970 + (d * 400) div 146097
      in if DayFromYear (y + 1) \<le> d then y + 1
         else if DayFromYear y \<le> d then y
         else y - 1)"

text \<open>The day number, within its year, on which month \<open>m\<close> (0 to 11) starts.\<close>

definition monthStart :: "bool \<Rightarrow> int \<Rightarrow> int" where
  "monthStart leap m =
     (let l = (if leap then 1 else 0)
      in if m = 0 then 0 else if m = 1 then 31 else if m = 2 then 59 + l
         else if m = 3 then 90 + l else if m = 4 then 120 + l else if m = 5 then 151 + l
         else if m = 6 then 181 + l else if m = 7 then 212 + l else if m = 8 then 243 + l
         else if m = 9 then 273 + l else if m = 10 then 304 + l else 334 + l)"

definition MonthFromDay :: "int \<Rightarrow> int" where
  "MonthFromDay d =
     (let y = YearFromDay d; leap = InLeapYear y; w = d - DayFromYear y
      in if w < monthStart leap 1 then 0 else if w < monthStart leap 2 then 1
         else if w < monthStart leap 3 then 2 else if w < monthStart leap 4 then 3
         else if w < monthStart leap 5 then 4 else if w < monthStart leap 6 then 5
         else if w < monthStart leap 7 then 6 else if w < monthStart leap 8 then 7
         else if w < monthStart leap 9 then 8 else if w < monthStart leap 10 then 9
         else if w < monthStart leap 11 then 10 else 11)"

definition DateFromDay :: "int \<Rightarrow> int" where
  "DateFromDay d =
     (let y = YearFromDay d
      in d - DayFromYear y - monthStart (InLeapYear y) (MonthFromDay d) + 1)"

definition MakeDay :: "int \<Rightarrow> int \<Rightarrow> int \<Rightarrow> int" where
  "MakeDay year month date =
     (let ym = year + month div 12; mn = month mod 12
      in DayFromYear ym + monthStart (InLeapYear ym) mn + date - 1)"

text \<open>
  \<open>new Date(year, month, date)\<close>: a \<open>NaN\<close> argument gives the invalid date, a year from
  0 to 99 means 1900 + year, month and date overflow into the next units, and a time
  value outside the range of \<open>TimeClip\<close> (100 000 000 days either side of the epoch) is
  the invalid date.
\<close>

definition newDate :: "int option \<Rightarrow> int option \<Rightarrow> int option \<Rightarrow> jsDate" where
  "newDate year month date =
     (case (year, month, date) of
        (Some y, Some m, Some dt) \<Rightarrow>
          (let yr = (if 0 \<le> y \<and> y \<le> 99 then 1900 + y else y);
               d = MakeDay yr m dt
           in if - 100000000 \<le> d \<and> d \<le> 100000000 then Some d else None)
      | _ \<Rightarrow> None)"

definition getDate :: "int \<Rightarrow> int" where "getDate d = DateFromDay d"
definition getMonth :: "int \<Rightarrow> int" where "getMonth d = MonthFromDay d"
definition getFullYear :: "int \<Rightarrow> int" where "getFullYear d = YearFromDay d"

section \<open>The access key: \<open>ClaveAccesoService\<close>\<close>

text \<open>
  \<open>fechaEmision\<close> is a \<open>Date\<close> or a string. \<open>ambiente\<close> and \<open>tipoEmision\<close> are numbers;
  they are integers here, since a number that is not an integer prints with a point, an
  exponent or as \<open>NaN\<close>/\<open>Infinity\<close> and is refused by the pattern that an integer other
  than 1 and 2 is refused by.
\<close>

datatype fecha = FechaDate jsDate | FechaString string

record ClaveAccesoParams =
  fechaEmision :: fecha
  tipoComprobante :: string
  ruc :: string
  ambiente :: int
  establecimiento :: string
  puntoEmision :: string
  secuencial :: string
  tipoEmision :: int

datatype campo =
  CampoRuc | CampoAmbiente | CampoTipoEmision | CampoEstablecimiento
  | CampoPuntoEmision | CampoSecuencial | CampoTipoComprobante

text \<open>Every \<open>throw\<close> of the service is a value of this type.\<close>

datatype error =
  ParametrosInvalidos "campo list"
  | FechaInvalida
  | ClaveBaseLongitud nat
  | ClaveBaseNoNumerica
  | ClaveNoCumplePatron string
  | Modulo11Longitud nat

definition tiposValidos :: "string list" where
  "tiposValidos = [''01'', ''03'', ''04'', ''05'', ''06'', ''07'']"

text \<open>\<open>validateParams\<close> collects one entry per violated field; it throws when the list is not empty.\<close>

definition validateParams :: "ClaveAccesoParams \<Rightarrow> campo list" where
  "validateParams p =
     (if length (ruc p) = 13 \<and> allDigits (take 10 (ruc p)) \<and> drop 10 (ruc p) = ''001''
      then [] else [CampoRuc])
     @ (if intToString (ambiente p) = ''1'' \<or> intToString (ambiente p) = ''2''
        then [] else [CampoAmbiente])
     @ (if intToString (tipoEmision p) = ''1'' \<or> intToString (tipoEmision p) = ''2''
        then [] else [CampoTipoEmision])
     @ (if length (establecimiento p) = 3 \<and> allDigits (establecimiento p)
        then [] else [CampoEstablecimiento])
     @ (if length (puntoEmision p) = 3 \<and> allDigits (puntoEmision p)
        then [] else [CampoPuntoEmision])
     @ (case parseInt (secuencial p) of
          None \<Rightarrow> [CampoSecuencial]
        | Some n \<Rightarrow> if n \<le> 0 \<or> n > 999999999 then [CampoSecuencial] else [])
     @ (if tipoComprobante p \<in> set tiposValidos then [] else [CampoTipoComprobante])"

text \<open>\<open>s.split(c)\<close> for a one-character separator.\<close>

fun split :: "char \<Rightarrow> string \<Rightarrow> string list" where
  "split c [] = [[]]"
| "split c (x # xs) =
     (if x = c then [] # split c xs
      else (case split c xs of [] \<Rightarrow> [[x]] | p # ps \<Rightarrow> (x # p) # ps))"

text \<open>
  \<open>formatFecha\<close>. \<open>new Date(string)\<close> reads formats that depend on the engine, so it is
  the parameter \<open>dateParse\<close>.
\<close>

definition formatFecha :: "(string \<Rightarrow> jsDate) \<Rightarrow> fecha \<Rightarrow> error + string" where
  "formatFecha dateParse f =
     (let d = (case f of
                 FechaString s \<Rightarrow>
                   if CHR ''/'' \<in> set s then
                     (let parts = split (CHR ''/'') s
                      in if length parts = 3 then
                           (let dia = parseInt (parts ! 0);
                                mes = map_option (\<lambda>m. m - 1) (parseInt (parts ! 1));
                                anio = parseInt (parts ! 2)
                            in newDate anio mes dia)
                         else dateParse s)
                   else dateParse s
               | FechaDate d0 \<Rightarrow> d0)
      in case d of
           None \<Rightarrow> Inl FechaInvalida
         | Some t \<Rightarrow>
             Inr (padStart 2 (intToString (getDate t))
                  @ padStart 2 (intToString (getMonth t + 1))
                  @ intToString (getFullYear t)))"

text \<open>
  \<open>generateCodigoNumerico\<close>: \<open>r\<close> is the value of \<open>Math.floor(Math.random() * (max - min + 1))\<close>,
  which lies below 90000000.
\<close>

definition generateCodigoNumerico :: "nat \<Rightarrow> string" where
  "generateCodigoNumerico r = natToString (r + 10000000)"

definition multiplicadores :: "nat list" where
  "multiplicadores =
     [7, 6, 5, 4, 3, 2, 7, 6, 5, 4, 3, 2, 7, 6, 5, 4, 3, 2, 7, 6, 5, 4, 3, 2,
      7, 6, 5, 4, 3, 2, 7, 6, 5, 4, 3, 2, 7, 6, 5, 4, 3, 2, 7, 6, 5, 4, 3, 2]"

text \<open>One step of \<open>suma += parseInt(clave[i]) * multiplicador\<close>; \<open>NaN\<close> is absorbing.\<close>

definition sumaPaso :: "int option \<Rightarrow> char \<Rightarrow> nat \<Rightarrow> int option" where
  "sumaPaso suma c m =
     (case (suma, parseInt [c]) of
        (Some s, Some d) \<Rightarrow> Some (s + d * int m)
      | _ \<Rightarrow> None)"

text \<open>The check digit from the sum: \<open>11 - suma % 11\<close>, with 11 read as 0 and 10 as 1.
  The sum is never negative, so \<open>%\<close> is \<open>mod\<close>.\<close>

definition digitoDeSuma :: "int option \<Rightarrow> string" where
  "digitoDeSuma suma =
     numToString (map_option
       (\<lambda>s. let dv = 11 - s mod 11 in if dv = 11 then 0 else if dv = 10 then 1 else dv) suma)"

definition calcularModulo11 :: "string \<Rightarrow> error + string" where
  "calcularModulo11 clave =
     (if length clave \<noteq> 48 then Inl (Modulo11Longitud (length clave))
      else Inr (digitoDeSuma
             (foldl (\<lambda>suma (c, m). sumaPaso suma c m) (Some 0) (zip clave multiplicadores))))"

text \<open>The 48 digits before the check digit, as \<open>generate\<close> concatenates them.\<close>

definition claveSinDigito :: "string \<Rightarrow> ClaveAccesoParams \<Rightarrow> string \<Rightarrow> string" where
  "claveSinDigito fechaPart p codigoNumerico =
     fechaPart @ padStart 2 (tipoComprobante p) @ padStart 13 (ruc p)
     @ intToString (ambiente p) @ padStart 3 (establecimiento p)
     @ padStart 3 (puntoEmision p) @ padStart 9 (secuencial p)
     @ codigoNumerico @ intToString (tipoEmision p)"

definition generate :: "(string \<Rightarrow> jsDate) \<Rightarrow> ClaveAccesoParams \<Rightarrow> nat \<Rightarrow> error + string" where
  "generate dateParse p r =
     (if validateParams p \<noteq> [] then Inl (ParametrosInvalidos (validateParams p))
      else case formatFecha dateParse (fechaEmision p) of
        Inl e \<Rightarrow> Inl e
      | Inr fechaPart \<Rightarrow>
          (let codigoNumerico = generateCodigoNumerico r;
               clave = claveSinDigito fechaPart p codigoNumerico
           in if length clave \<noteq> 48 then Inl (ClaveBaseLongitud (length clave))
              else if \<not> allDigits clave then Inl ClaveBaseNoNumerica
              else case calcularModulo11 clave of
                Inl e \<Rightarrow> Inl e
              | Inr digitoVerificador \<Rightarrow>
                  (let claveAcceso = clave @ digitoVerificador
                   in if \<not> (length claveAcceso = 49 \<and> allDigits claveAcceso)
                      then Inl (ClaveNoCumplePatron claveAcceso)
                      else Inr claveAcceso)))"

definition validate :: "string \<Rightarrow> error + bool" where
  "validate claveAcceso =
     (if length claveAcceso \<noteq> 49 then Inr False
      else if \<not> (claveAcceso \<noteq> [] \<and> allDigits claveAcceso) then Inr False
      else case calcularModulo11 (substring claveAcceso 0 48) of
        Inl e \<Rightarrow> Inl e
      | Inr digitoCalculado \<Rightarrow> Inr (substring claveAcceso 48 49 = digitoCalculado))"

section \<open>The second check digit: \<open>InvoiceXMLBuilder.calcularModulo11\<close>\<close>

definition factores :: "nat list" where
  "factores = [2, 3, 4, 5, 6, 7]"

text \<open>The loop from the last character to the first; the list is the string reversed.\<close>

fun sumaDerecha :: "string \<Rightarrow> nat \<Rightarrow> int option \<Rightarrow> int option" where
  "sumaDerecha [] factorIndex suma = suma"
| "sumaDerecha (c # cs) factorIndex suma =
     sumaDerecha cs ((factorIndex + 1) mod length factores)
       (sumaPaso suma c (factores ! factorIndex))"

definition calcularModulo11Builder :: "string \<Rightarrow> string" where
  "calcularModulo11Builder numero = digitoDeSuma (sumaDerecha (rev numero) 0 (Some 0))"

section \<open>Canonical XML: \<open>SRIC14N\<close>\<close>

text \<open>
  The DOM tree that \<open>DOMParser\<close> hands to the canonicalizer: an element has a tag name,
  its attributes in document order and its child nodes; a text node has its value; every
  other kind of node (comment, processing instruction, ...) is \<open>OtherNode\<close>.
\<close>

datatype node =
  Element string "(string \<times> string) list" "node list"
  | Text string
  | OtherNode

text \<open>\<open>s.replace(/c/g, r)\<close> for a pattern of one character.\<close>

definition replaceAll :: "char \<Rightarrow> string \<Rightarrow> string \<Rightarrow> string" where
  "replaceAll c r s = concat (map (\<lambda>x. if x = c then r else [x]) s)"

definition escapeAttributeValue :: "string \<Rightarrow> string" where
  "escapeAttributeValue v =
     replaceAll (CHR 0x0D) ''&#xD;''
       (replaceAll (CHR 0x0A) ''&#xA;''
         (replaceAll (CHR 0x09) ''&#x9;''
           (replaceAll (CHR 0x22) ''&quot;''
             (replaceAll (CHR ''<'') ''&lt;''
               (replaceAll (CHR ''&'') ''&amp;'' v)))))"

definition canonicalizeText :: "string \<Rightarrow> string" where
  "canonicalizeText v =
     replaceAll (CHR 0x0D) ''&#xD;''
       (replaceAll (CHR ''>'') ''&gt;''
         (replaceAll (CHR ''<'') ''&lt;''
           (replaceAll (CHR ''&'') ''&amp;'' v)))"

text \<open>
  A JavaScript object used as a dictionary from strings to strings: its properties in
  creation order. Assigning to an existing key keeps the key's place.
\<close>

type_synonym jsObject = "(string \<times> string) list"

fun objSet :: "string \<Rightarrow> string \<Rightarrow> jsObject \<Rightarrow> jsObject" where
  "objSet k v [] = [(k, v)]"
| "objSet k v ((k', v') # rest) =
     (if k' = k then (k, v) # rest else (k', v') # objSet k v rest)"

text \<open>
  \<open>Object.entries\<close>: the keys that are array indices (canonical decimal numbers below
  \<open>2^32 - 1\<close>) come first, in ascending numeric order, then the others in creation order.
\<close>

definition decimalValue :: "string \<Rightarrow> int" where
  "decimalValue s = foldl (\<lambda>a c. a * 10 + int (digitVal c)) 0 s"

definition isArrayIndex :: "string \<Rightarrow> bool" where
  "isArrayIndex k \<longleftrightarrow>
     k \<noteq> [] \<and> allDigits k \<and> (k = ''0'' \<or> take 1 k \<noteq> ''0'') \<and> decimalValue k < 4294967295"

definition entries :: "jsObject \<Rightarrow> (string \<times> string) list" where
  "entries obj =
     sort_key (\<lambda>(k, v). decimalValue k) (filter (\<lambda>(k, v). isArrayIndex k) obj)
     @ filter (\<lambda>(k, v). \<not> isArrayIndex k) obj"

text \<open>The spread \<open>{ ...a, ...b }\<close>.\<close>

definition spread :: "jsObject \<Rightarrow> jsObject \<Rightarrow> jsObject" where
  "spread a b = foldl (\<lambda>obj (k, v). objSet k v obj) (entries a) (entries b)"

text \<open>
  \<open>Array.prototype.sort(compare)\<close>: a stable sort; \<open>compare a b \<le> 0\<close> keeps \<open>a\<close> before
  \<open>b\<close>. It is the stable insertion sort here.
\<close>

fun insertBy :: "('a \<Rightarrow> 'a \<Rightarrow> int) \<Rightarrow> 'a \<Rightarrow> 'a list \<Rightarrow> 'a list" where
  "insertBy cmp x [] = [x]"
| "insertBy cmp x (y # ys) = (if cmp x y \<le> 0 then x # y # ys else y # insertBy cmp x ys)"

definition sortBy :: "('a \<Rightarrow> 'a \<Rightarrow> int) \<Rightarrow> 'a list \<Rightarrow> 'a list" where
  "sortBy cmp xs = foldr (insertBy cmp) xs []"

definition startsWith :: "string \<Rightarrow> string \<Rightarrow> bool" where
  "startsWith s p \<longleftrightarrow> take (length p) s = p"

text \<open>\<open>s.indexOf(c)\<close>: \<open>None\<close> is \<open>-1\<close>.\<close>

fun indexOf :: "char \<Rightarrow> string \<Rightarrow> nat option" where
  "indexOf c [] = None"
| "indexOf c (x # xs) = (if x = c then Some 0 else map_option Suc (indexOf c xs))"

text \<open>\<open>splitQName\<close> returns the pair \<open>(namespaceURI, localName)\<close>; the prefix stands for
  the namespace.\<close>

definition splitQName :: "string \<Rightarrow> string \<times> string" where
  "splitQName qname =
     (case indexOf (CHR '':'') qname of
        None \<Rightarrow> ([], qname)
      | Some colonIndex \<Rightarrow> (take colonIndex qname, drop (colonIndex + 1) qname))"

text \<open>\<open>String.prototype.localeCompare\<close> depends on the engine's collation: it is the
  parameter \<open>lc\<close> of everything below.\<close>

definition attributeCompare :: "(string \<Rightarrow> string \<Rightarrow> int) \<Rightarrow> string \<Rightarrow> string \<Rightarrow> int" where
  "attributeCompare lc a b =
     (let aParts = splitQName a; bParts = splitQName b
      in if fst aParts \<noteq> fst bParts then
           (if fst aParts = [] then - 1
            else if fst bParts = [] then 1
            else lc (fst aParts) (fst bParts))
         else lc (snd aParts) (snd bParts))"

definition extractNamespaces :: "(string \<times> string) list \<Rightarrow> jsObject" where
  "extractNamespaces attrs =
     foldl (\<lambda>namespaces (name, v).
              if startsWith name ''xmlns''
              then objSet (if name = ''xmlns'' then [] else drop 6 name) v namespaces
              else namespaces)
       [] attrs"

definition getSortedAttributes ::
  "(string \<Rightarrow> string \<Rightarrow> int) \<Rightarrow> (string \<times> string) list \<Rightarrow> (string \<times> string) list" where
  "getSortedAttributes lc attrs =
     sortBy (\<lambda>a b. attributeCompare lc (fst a) (fst b))
       (filter (\<lambda>(name, v). \<not> startsWith name ''xmlns'') attrs)"

definition getSortedNamespaces ::
  "(string \<Rightarrow> string \<Rightarrow> int) \<Rightarrow> jsObject \<Rightarrow> (string \<times> string) list" where
  "getSortedNamespaces lc namespaces =
     sortBy (\<lambda>a b. lc (fst a) (fst b))
       (map (\<lambda>(prefix, uri). (if prefix = [] then ''xmlns'' else ''xmlns:'' @ prefix, uri))
          (entries namespaces))"

text \<open>One \<open> name="value"\<close> of a start tag.\<close>

definition attributeText :: "string \<times> string \<Rightarrow> string" where
  "attributeText a = '' '' @ fst a @ ''=\"'' @ escapeAttributeValue (snd a) @ ''\"''"

text \<open>
  \<open>canonicalizeNode\<close>, with \<open>canonicalizeElement\<close> as its first equation: the tag, the
  namespace declarations of the element sorted by name, its other attributes sorted by
  \<open>attributeCompare\<close>, the children, the end tag.
\<close>

fun canonicalizeNode :: "(string \<Rightarrow> string \<Rightarrow> int) \<Rightarrow> jsObject \<Rightarrow> node \<Rightarrow> string" where
  "canonicalizeNode lc inheritedNamespaces (Element tagName attrs childNodes) =
     (let localNamespaces = extractNamespaces attrs;
          mergedNamespaces = spread inheritedNamespaces localNamespaces;
          attributes = getSortedAttributes lc attrs;
          sortedNamespaces = getSortedNamespaces lc localNamespaces
      in ''<'' @ tagName
         @ concat (map attributeText sortedNamespaces)
         @ concat (map attributeText
                     (filter (\<lambda>(name, v). \<not> startsWith name ''xmlns'') attributes))
         @ ''>''
         @ concat (map (canonicalizeNode lc mergedNamespaces) childNodes)
         @ ''</'' @ tagName @ ''>'')"
| "canonicalizeNode lc inheritedNamespaces (Text v) = canonicalizeText v"
| "canonicalizeNode lc inheritedNamespaces OtherNode = []"

text \<open>\<open>canonicalize\<close>, on the root element of the parsed document (the parser is not part
  of the model; a document with no root element makes \<open>canonicalize\<close> throw before this).\<close>

definition canonicalize :: "(string \<Rightarrow> string \<Rightarrow> int) \<Rightarrow> node \<Rightarrow> string" where
  "canonicalize lc documentElement = canonicalizeNode lc [] documentElement"

section \<open>The signature assemblers\<close>

text \<open>
  \<open>XAdESSignatureService\<close> builds the signature as a DOM tree. \<open>createElementNS\<close> makes
  an element with no attribute and no child; \<open>setAttribute\<close> replaces the value of an
  attribute that exists and adds it at the end otherwise; \<open>textContent = v\<close> leaves one
  text child, or none when \<open>v\<close> is empty. The functions return the node they changed.
\<close>

definition createElementNS :: "string \<Rightarrow> node" where
  "createElementNS qualifiedName = Element qualifiedName [] []"

definition setAttribute :: "string \<Rightarrow> string \<Rightarrow> node \<Rightarrow> node" where
  "setAttribute name v n =
     (case n of Element t attrs cs \<Rightarrow> Element t (objSet name v attrs) cs | _ \<Rightarrow> n)"

definition appendChild :: "node \<Rightarrow> node \<Rightarrow> node" where
  "appendChild parent child =
     (case parent of Element t attrs cs \<Rightarrow> Element t attrs (cs @ [child]) | _ \<Rightarrow> parent)"

definition setTextContent :: "string \<Rightarrow> node \<Rightarrow> node" where
  "setTextContent v n =
     (case n of Element t attrs cs \<Rightarrow> Element t attrs (if v = [] then [] else [Text v]) | _ \<Rightarrow> n)"

definition CANONICALIZATION_METHOD :: string where
  "CANONICALIZATION_METHOD = ''http://www.w3.org/TR/2001/REC-xml-c14n-20010315''"

definition SIGNATURE_METHOD_RSA_SHA1 :: string where
  "SIGNATURE_METHOD_RSA_SHA1 = ''http://www.w3.org/2000/09/xmldsig#rsa-sha1''"

definition SIGNATURE_METHOD_RSA_SHA256 :: string where
  "SIGNATURE_METHOD_RSA_SHA256 = ''http://www.w3.org/2001/04/xmldsig-more#rsa-sha256''"

definition DIGEST_METHOD_SHA1 :: string where
  "DIGEST_METHOD_SHA1 = ''http://www.w3.org/2000/09/xmldsig#sha1''"

text \<open>
  \<open>XAdESSignatureService.createReference\<close>. The optional \<open>type\<close> is \<open>None\<close> when it is
  not passed; \<open>if (type)\<close> holds for a string that is not empty.
\<close>

definition createReference ::
  "string \<Rightarrow> string \<Rightarrow> string \<Rightarrow> bool \<Rightarrow> string option \<Rightarrow> node" where
  "createReference ident uri digestValue isEnveloped type =
     (let reference0 = setAttribute ''URI'' uri (setAttribute ''Id'' ident (createElementNS ''ds:Reference''));
          reference1 = (case type of
                          Some t \<Rightarrow> if t \<noteq> [] then setAttribute ''Type'' t reference0 else reference0
                        | None \<Rightarrow> reference0);
          transforms0 = createElementNS ''ds:Transforms'';
          (transforms, needsTransforms) =
            (if isEnveloped then
               (appendChild transforms0
                  (setAttribute ''Algorithm'' ''http://www.w3.org/2000/09/xmldsig#enveloped-signature''
                     (createElementNS ''ds:Transform'')), True)
             else if type = Some ''http://uri.etsi.org/01903#SignedProperties'' then
               (appendChild transforms0
                  (setAttribute ''Algorithm'' CANONICALIZATION_METHOD
                     (createElementNS ''ds:Transform'')), True)
             else (transforms0, False));
          reference2 = (if needsTransforms then appendChild reference1 transforms else reference1);
          digestMethod = setAttribute ''Algorithm'' DIGEST_METHOD_SHA1 (createElementNS ''ds:DigestMethod'');
          reference3 = appendChild reference2 digestMethod;
          digestValueElement = setTextContent digestValue (createElementNS ''ds:DigestValue'')
      in appendChild reference3 digestValueElement)"

text \<open>
  \<open>XAdESSignatureService.createSignedInfo\<close>. The digest of the document
  (\<open>calculateEnvelopedDigest\<close>), the identifier drawn by \<open>generateUUID\<close> and whether the
  options ask for SHA256 are parameters.
\<close>

definition createSignedInfo ::
  "string \<Rightarrow> string \<Rightarrow> string \<Rightarrow> string \<Rightarrow> string \<Rightarrow> string \<Rightarrow> string \<Rightarrow> bool \<Rightarrow> node" where
  "createSignedInfo envelopedDigest uuid referenceId signedPropsId signedPropsDigest
       keyInfoId keyInfoDigest sha256 =
     (let signedInfo0 = createElementNS ''ds:SignedInfo'';
          canonMethod = setAttribute ''Algorithm'' CANONICALIZATION_METHOD
                          (createElementNS ''ds:CanonicalizationMethod'');
          signedInfo1 = appendChild signedInfo0 canonMethod;
          algorithm = (if sha256 then SIGNATURE_METHOD_RSA_SHA256 else SIGNATURE_METHOD_RSA_SHA1);
          signMethod = setAttribute ''Algorithm'' algorithm (createElementNS ''ds:SignatureMethod'');
          signedInfo2 = appendChild signedInfo1 signMethod;
          propsReference = createReference (referenceId @ ''-SignedProperties'')
                             (''#'' @ signedPropsId) signedPropsDigest False
                             (Some ''http://uri.etsi.org/01903#SignedProperties'');
          signedInfo3 = appendChild signedInfo2 propsReference;
          certReference = createReference (''Certificate-'' @ uuid) (''#'' @ keyInfoId)
                            keyInfoDigest False None;
          signedInfo4 = appendChild signedInfo3 certReference;
          docReference = createReference referenceId [] envelopedDigest True None
      in appendChild signedInfo4 docReference)"

text \<open>\<open>SRIXmlSigner.createSignedInfo\<close>: the template string, character for character.\<close>

definition createSignedInfoSRI ::
  "string \<Rightarrow> string \<Rightarrow> string \<Rightarrow> string \<Rightarrow> string \<Rightarrow> string \<Rightarrow> string \<Rightarrow> string \<Rightarrow> string" where
  "createSignedInfoSRI signedInfoId signedPropertiesRefId signedPropsId signedPropsDigest
       keyInfoId keyInfoDigest referenceId documentDigest =
     ''<ds:SignedInfo Id=\"'' @ signedInfoId @
     ''\" xmlns:ds=\"http://www.w3.org/2000/09/xmldsig#\">\<newline>'' @
     ''      <ds:CanonicalizationMethod Algorithm=\"http://www.w3.org/TR/2001/REC-xml-c14n-20010315\">\<newline>'' @
     ''      </ds:CanonicalizationMethod>\<newline>'' @
     ''      <ds:SignatureMethod Algorithm=\"http://www.w3.org/2000/09/xmldsig#rsa-sha1\">\<newline>'' @
     ''      </ds:SignatureMethod>\<newline>'' @ ''      <ds:Reference Id=\"'' @
     signedPropertiesRefId @
     ''\" Type=\"http://uri.etsi.org/01903#SignedProperties\" URI=\"#'' @ signedPropsId @
     ''\">\<newline>'' @ ''        <ds:Transforms>\<newline>'' @
     ''          <ds:Transform Algorithm=\"http://www.w3.org/TR/2001/REC-xml-c14n-20010315\"/>\<newline>'' @
     ''        </ds:Transforms>\<newline>'' @
     ''        <ds:DigestMethod Algorithm=\"http://www.w3.org/2000/09/xmldsig#sha1\">\<newline>'' @
     ''        </ds:DigestMethod>\<newline>'' @ ''        <ds:DigestValue>'' @
     signedPropsDigest @ ''</ds:DigestValue>\<newline>'' @
     ''      </ds:Reference>\<newline>'' @ ''      <ds:Reference URI=\"#'' @ keyInfoId @
     ''\">\<newline>'' @
     ''        <ds:DigestMethod Algorithm=\"http://www.w3.org/2000/09/xmldsig#sha1\">\<newline>'' @
     ''        </ds:DigestMethod>\<newline>'' @ ''        <ds:DigestValue>'' @ keyInfoDigest @
     ''</ds:DigestValue>\<newline>'' @ ''      </ds:Reference>\<newline>'' @
     ''      <ds:Reference Id=\"'' @ referenceId @ ''\" URI=\"#comprobante\">\<newline>'' @
     ''        <ds:Transforms>\<newline>'' @
     ''          <ds:Transform Algorithm=\"http://www.w3.org/2000/09/xmldsig#enveloped-signature\">\<newline>'' @
     ''          </ds:Transform>\<newline>'' @ ''        </ds:Transforms>\<newline>'' @
     ''        <ds:DigestMethod Algorithm=\"http://www.w3.org/2000/09/xmldsig#sha1\">\<newline>'' @
     ''        </ds:DigestMethod>\<newline>'' @ ''        <ds:DigestValue>'' @
     documentDigest @ ''</ds:DigestValue>\<newline>'' @ ''      </ds:Reference>\<newline>'' @
     ''    </ds:SignedInfo>''"

section \<open>The RSA key value in \<open>KeyInfo\<close>\<close>

text \<open>
  The modulus and the exponent of the public key are natural numbers, and a byte is a
  natural number below 256. \<open>bytesBE\<close> is the minimal big-endian unsigned encoding (no
  leading zero byte; the empty list for 0).
\<close>

fun bytesBE :: "nat \<Rightarrow> nat list" where
  "bytesBE n = (if n = 0 then [] else bytesBE (n div 256) @ [n mod 256])"

declare bytesBE.simps [simp del]

text \<open>
  \<open>BigInteger.prototype.toByteArray\<close> of the key's library (jsbn, as in Java): the
  big-endian two's-complement bytes, so a zero sign byte comes first when the leading byte
  of a positive number has its top bit set, and 0 is one zero byte.
\<close>

definition toByteArray :: "nat \<Rightarrow> nat list" where
  "toByteArray n =
     (case bytesBE n of
        [] \<Rightarrow> [0]
      | b # bs \<Rightarrow> if 128 \<le> b then 0 # b # bs else b # bs)"

text \<open>\<open>n.toString(16)\<close>, and \<open>Buffer.from(hex, 'hex')\<close>, which reads two digits per byte
  and stops at the first pair that is incomplete or not hexadecimal.\<close>

definition hexChar :: "nat \<Rightarrow> char" where
  "hexChar d = ''0123456789abcdef'' ! d"

fun toStringHex :: "nat \<Rightarrow> string" where
  "toStringHex n =
     (if n < 16 then [hexChar n] else toStringHex (n div 16) @ [hexChar (n mod 16)])"

declare toStringHex.simps [simp del]

fun bufferFromHex :: "string \<Rightarrow> nat list" where
  "bufferFromHex (a # b # rest) =
     (if isHexDigit a \<and> isHexDigit b then (16 * hexVal a + hexVal b) # bufferFromHex rest else [])"
| "bufferFromHex s = []"

text \<open>Base64 with padding (\<open>forge.util.encode64\<close>, \<open>Buffer.toString('base64')\<close>).\<close>

definition base64Char :: "nat \<Rightarrow> char" where
  "base64Char i = ''ABCDEFGHIJKLMNOPQRSTUVWXYZabcdefghijklmnopqrstuvwxyz0123456789+/'' ! i"

fun encode64 :: "nat list \<Rightarrow> string" where
  "encode64 (a # b # c # rest) =
     [base64Char (a div 4), base64Char ((a mod 4) * 16 + b div 16),
      base64Char ((b mod 16) * 4 + c div 64), base64Char (c mod 64)] @ encode64 rest"
| "encode64 [a, b] =
     [base64Char (a div 4), base64Char ((a mod 4) * 16 + b div 16),
      base64Char ((b mod 16) * 4), CHR ''='']"
| "encode64 [a] = [base64Char (a div 4), base64Char ((a mod 4) * 16), CHR ''='', CHR ''='']"
| "encode64 [] = []"

text \<open>
  \<open>s.match(/.{1,k}/g)\<close>: the runs of at most \<open>k\<close> characters other than line
  terminators; the empty list stands for \<open>null\<close>. \<open>join\<close> is \<open>Array.prototype.join\<close>.
\<close>

definition isLineTerminator :: "char \<Rightarrow> bool" where
  "isLineTerminator c \<longleftrightarrow> c = CHR 0x0A \<or> c = CHR 0x0D"

fun matchChunks :: "nat \<Rightarrow> string \<Rightarrow> string \<Rightarrow> string list" where
  "matchChunks k acc [] = (if acc = [] then [] else [acc])"
| "matchChunks k acc (c # cs) =
     (if isLineTerminator c then (if acc = [] then [] else [acc]) @ matchChunks k [] cs
      else if length acc + 1 = k then (acc @ [c]) # matchChunks k [] cs
      else matchChunks k (acc @ [c]) cs)"

fun join :: "string \<Rightarrow> string list \<Rightarrow> string" where
  "join sep [] = []"
| "join sep [x] = x"
| "join sep (x # y # ys) = x @ sep @ join sep (y # ys)"

text \<open>
  \<open>SRIXmlSigner.createKeyInfoContent\<close>. The certificate in base64 and the modulus of
  its public key (\<open>None\<close> when the certificate has no public key) are parameters.
\<close>

definition createKeyInfoContent :: "string \<Rightarrow> string \<Rightarrow> nat option \<Rightarrow> string" where
  "createKeyInfoContent keyInfoId certBase64 publicKeyN =
     (let modulus = (case publicKeyN of
                       None \<Rightarrow> []
                     | Some n \<Rightarrow> encode64 (toByteArray n));
          certLines = (if matchChunks 76 [] certBase64 = [] then [certBase64]
                       else matchChunks 76 [] certBase64);
          formattedCert = join ''\<newline>'' certLines;
          modulusLines = (if matchChunks 76 [] modulus = [] then [modulus]
                          else matchChunks 76 [] modulus);
          formattedModulus = join ''\<newline>'' modulusLines
      in
        ''<ds:KeyInfo Id=\"'' @ keyInfoId @
        ''\" xmlns:ds=\"http://www.w3.org/2000/09/xmldsig#\">\<newline>'' @
        ''      <ds:X509Data>\<newline>'' @ ''        <ds:X509Certificate>\<newline>'' @
        formattedCert @ ''\<newline>'' @ ''</ds:X509Certificate>\<newline>'' @
        ''      </ds:X509Data>\<newline>'' @ ''      <ds:KeyValue>\<newline>'' @
        ''        <ds:RSAKeyValue>\<newline>'' @ ''          <ds:Modulus>\<newline>'' @
        formattedModulus @ ''\<newline>'' @ ''</ds:Modulus>\<newline>'' @
        ''          <ds:Exponent>AQAB</ds:Exponent>\<newline>'' @
        ''        </ds:RSAKeyValue>\<newline>'' @ ''      </ds:KeyValue>\<newline>'' @
        ''    </ds:KeyInfo>'')"

text \<open>\<open>XAdESSignatureService.createRSAKeyValue\<close>, for the modulus and the exponent of
  the certificate's public key.\<close>

definition createRSAKeyValue :: "nat \<Rightarrow> nat \<Rightarrow> node" where
  "createRSAKeyValue n e =
     (let modulus = encode64 (bufferFromHex (toStringHex n));
          exponentHex0 = toStringHex e;
          exponentHex = (if length exponentHex0 mod 2 \<noteq> 0 then ''0'' @ exponentHex0
                         else exponentHex0);
          exponent = encode64 (bufferFromHex exponentHex);
          rsaKeyValue = createElementNS ''ds:RSAKeyValue'';
          formattedModulus = (if matchChunks 64 [] modulus = [] then modulus
                              else if join ''\<newline>'' (matchChunks 64 [] modulus) = [] then modulus
                              else join ''\<newline>'' (matchChunks 64 [] modulus));
          modulusElement = setTextContent (''\<newline>'' @ formattedModulus @ ''\<newline>'')
                             (createElementNS ''ds:Modulus'');
          exponentElement = setTextContent exponent (createElementNS ''ds:Exponent'')
      in appendChild (appendChild rsaKeyValue modulusElement) exponentElement)"

section \<open>The submission client: \<open>SRIConnectorService\<close>\<close>

text \<open>
  The response of the reception operation as \<open>processValidarResponse\<close> returns it.
  \<open>estado\<close> is the string the service sent (\<open>DEVUELTA\<close> when it sent none): the union
  type \<open>'RECIBIDA' | 'DEVUELTA'\<close> of the declaration is a cast, which nothing checks when
  the program runs.
\<close>

record MensajeSRI =
  identificador :: string
  mensaje :: string
  informacionAdicional :: string
  tipo :: string

record ComprobanteRespuesta =
  claveAcceso :: string
  mensajes :: "MensajeSRI list"

record ValidarComprobanteResponse =
  estado :: string
  comprobantes :: "ComprobanteRespuesta list"

text \<open>
  What \<open>isRetryableError\<close> reads of a caught error: its message (empty when there is
  none), the status of its HTTP response when it has one, and its code as a string when it
  has one. One attempt of a remote operation either gives a processed response or throws.
\<close>

record errorJS =
  message :: string
  responseStatus :: "int option"
  code :: "string option"

datatype 'r intento = Respuesta 'r | Falla errorJS

text \<open>\<open>toLowerCase\<close> on code units below 256, and \<open>s.includes(sub)\<close>.\<close>

definition toLowerCase :: "string \<Rightarrow> string" where
  "toLowerCase s =
     map (\<lambda>c. let n = (of_char c :: nat)
              in if (65 \<le> n \<and> n \<le> 90) \<or> (192 \<le> n \<and> n \<le> 222 \<and> n \<noteq> 215)
                 then char_of (n + 32) else c) s"

fun includesStr :: "string \<Rightarrow> string \<Rightarrow> bool" where
  "includesStr [] sub = (sub = [])"
| "includesStr (c # cs) sub = (take (length sub) (c # cs) = sub \<or> includesStr cs sub)"

definition isRetryableError :: "errorJS \<Rightarrow> bool" where
  "isRetryableError e =
     (let m = toLowerCase (message e)
      in if includesStr m ''timeout'' \<or> includesStr m ''econnrefused'' \<or> includesStr m ''enotfound''
            \<or> includesStr m ''econnreset'' \<or> includesStr m ''socket hang up'' \<or> includesStr m ''network''
         then True
         else if (case responseStatus e of Some st \<Rightarrow> st \<in> set [500, 502, 503, 504] | None \<Rightarrow> False)
         then True
         else (case code e of
                 Some c \<Rightarrow> c \<noteq> [] \<and> (case parseInt c of Some n \<Rightarrow> n \<in> set [26, 50, 65, 70] | None \<Rightarrow> False)
               | None \<Rightarrow> False))"

text \<open>\<open>getRetryDelay\<close>; the jitter, \<open>Math.random() * 1000\<close>, is a parameter.\<close>

definition getRetryDelay :: "nat \<Rightarrow> int \<Rightarrow> int" where
  "getRetryDelay attempt jitter = min (1000 * 2 ^ (attempt - 1)) 30000 + jitter"

text \<open>
  The effects of the client are a trace of events: a call of the remote operation (with
  the number of the attempt) or a sleep (with its delay). What it throws is a \<open>fallo\<close>.
\<close>

datatype evento = Llamada nat | Espera int

datatype fallo =
  Lanzado errorJS
  | FalloTrasIntentos nat "errorJS option"
  | TimeoutAutorizacion

text \<open>
  \<open>validarComprobante\<close>. \<open>inicio\<close> is the error \<open>initializeClients\<close> throws, if any;
  \<open>recepcion attempt\<close> is what the call and \<open>processValidarResponse\<close> give at that
  attempt, and \<open>restantes\<close> counts the iterations the \<open>for\<close> loop has left. A response
  whose \<open>estado\<close> is neither \<open>RECIBIDA\<close> nor \<open>DEVUELTA\<close> leaves the \<open>try\<close> block
  without a return: the loop goes to the next attempt, with no sleep and with \<open>lastError\<close>
  as it was.
\<close>

fun validarLoop ::
  "(nat \<Rightarrow> ValidarComprobanteResponse intento) \<Rightarrow> (nat \<Rightarrow> int) \<Rightarrow> nat \<Rightarrow> nat \<Rightarrow> nat
     \<Rightarrow> errorJS option \<Rightarrow> (fallo + ValidarComprobanteResponse) \<times> evento list" where
  "validarLoop recepcion jitter maxRetries 0 attempt lastError =
     (Inl (FalloTrasIntentos maxRetries lastError), [])"
| "validarLoop recepcion jitter maxRetries (Suc restantes) attempt lastError =
     (case recepcion attempt of
        Respuesta respuesta \<Rightarrow>
          if estado respuesta = ''RECIBIDA'' then (Inr respuesta, [Llamada attempt])
          else if estado respuesta = ''DEVUELTA'' then (Inr respuesta, [Llamada attempt])
          else
            (let r = validarLoop recepcion jitter maxRetries restantes (attempt + 1) lastError
             in (fst r, Llamada attempt # snd r))
      | Falla e \<Rightarrow>
          if isRetryableError e then
            (if attempt < maxRetries then
               (let r = validarLoop recepcion jitter maxRetries restantes (attempt + 1) (Some e)
                in (fst r, Llamada attempt # Espera (getRetryDelay attempt (jitter attempt)) # snd r))
             else
               (let r = validarLoop recepcion jitter maxRetries restantes (attempt + 1) (Some e)
                in (fst r, Llamada attempt # snd r)))
          else (Inl (Lanzado e), [Llamada attempt]))"

definition validarComprobante ::
  "errorJS option \<Rightarrow> (nat \<Rightarrow> ValidarComprobanteResponse intento) \<Rightarrow> (nat \<Rightarrow> int) \<Rightarrow> nat
     \<Rightarrow> (fallo + ValidarComprobanteResponse) \<times> evento list" where
  "validarComprobante inicio recepcion jitter maxRetries =
     (case inicio of
        Some e \<Rightarrow> (Inl (Lanzado e), [])
      | None \<Rightarrow> validarLoop recepcion jitter maxRetries maxRetries 1 None)"

text \<open>The authorization records; \<open>estado\<close> is a string here, as the interface declares.\<close>

record Autorizacion =
  estadoAutorizacion :: string
  numeroAutorizacion :: "string option"
  fechaAutorizacion :: "string option"
  ambienteAutorizacion :: "string option"
  comprobanteAutorizado :: "string option"
  mensajesAutorizacion :: "MensajeSRI list"

record AutorizacionResponse =
  claveAccesoConsultada :: string
  numeroComprobantes :: string
  autorizaciones :: "Autorizacion list"

text \<open>
  The environment of the poll loop: what the \<open>i\<close>-th call of \<open>autorizacionComprobante\<close>
  gives, how many milliseconds it takes, and by how many milliseconds the sleep after it
  runs late.
\<close>

record entornoConsulta =
  consulta :: "nat \<Rightarrow> AutorizacionResponse intento"
  duracion :: "nat \<Rightarrow> nat"
  demora :: "nat \<Rightarrow> nat"

text \<open>
  \<open>autorizacionComprobanteConEspera\<close>. \<open>transcurrido\<close> is \<open>Date.now() - tiempoInicio\<close>
  at the head of the loop, and \<open>i\<close> counts the calls made. The loop can run for ever when
  no time passes, so it takes fuel: \<open>None\<close> is a loop that has not ended when the fuel has.
  The result carries the number of calls made.
\<close>

fun esperaLoop ::
  "nat \<Rightarrow> entornoConsulta \<Rightarrow> int \<Rightarrow> int \<Rightarrow> nat \<Rightarrow> int
     \<Rightarrow> ((fallo + AutorizacionResponse) \<times> nat) option" where
  "esperaLoop 0 env maxEspera intervalo i transcurrido = None"
| "esperaLoop (Suc fuel) env maxEspera intervalo i transcurrido =
     (if \<not> transcurrido < maxEspera then Some (Inl TimeoutAutorizacion, i)
      else
        (let despues = transcurrido + int (duracion env i);
             dormido = despues + intervalo + int (demora env i)
         in case consulta env i of
              Respuesta respuesta \<Rightarrow>
                (case autorizaciones respuesta of
                   [] \<Rightarrow> esperaLoop fuel env maxEspera intervalo (i + 1) dormido
                 | autorizacion # resto \<Rightarrow>
                     if estadoAutorizacion autorizacion
                          \<in> set [''AUTORIZADO'', ''NO AUTORIZADO'', ''RECHAZADO'']
                     then Some (Inr respuesta, i + 1)
                     else if estadoAutorizacion autorizacion = ''EN PROCESAMIENTO''
                     then esperaLoop fuel env maxEspera intervalo (i + 1) dormido
                     else Some (Inr respuesta, i + 1))
            | Falla e \<Rightarrow>
                if despues + intervalo < maxEspera
                then esperaLoop fuel env maxEspera intervalo (i + 1) dormido
                else Some (Inl (Lanzado e), i + 1)))"

definition autorizacionComprobanteConEspera ::
  "nat \<Rightarrow> entornoConsulta \<Rightarrow> int \<Rightarrow> int \<Rightarrow> ((fallo + AutorizacionResponse) \<times> nat) option" where
  "autorizacionComprobanteConEspera fuel env maxEspera intervalo =
     esperaLoop fuel env maxEspera intervalo 0 0"

section \<open>Notions used to state the properties\<close>

text \<open>The weighted sum of the digits of a string, and its remainder modulo 11 under the
  weights of \<open>ClaveAccesoService\<close>.\<close>

definition ponderada :: "string \<Rightarrow> nat list \<Rightarrow> nat" where
  "ponderada s ms = sum_list (map (\<lambda>(c, m). digitVal c * m) (zip s ms))"

definition residuo :: "string \<Rightarrow> nat" where
  "residuo s = ponderada s multiplicadores mod 11"

text \<open>The check digit that belongs to a remainder: 0 for 0, 1 for 1 and for 10, else 11 minus it.\<close>

definition digitoDeResiduo :: "nat \<Rightarrow> nat" where
  "digitoDeResiduo r = (if r = 0 then 0 else if r = 1 then 1 else 11 - r)"

text \<open>The parameters of the known vector (the integration test's), for a date \<open>f\<close>.\<close>

definition vectorConocido :: "fecha \<Rightarrow> ClaveAccesoParams" where
  "vectorConocido f =
     \<lparr>fechaEmision = f, tipoComprobante = ''01'', ruc = ''1792146739001'', ambiente = 1,
      establecimiento = ''001'', puntoEmision = ''001'', secuencial = ''000000001'',
      tipoEmision = 1\<rparr>"

text \<open>
  The character references of the two escaping contexts, as the amended claim C5 lists
  them: six characters in attribute values (the greater-than sign is not one of them),
  four in text.
\<close>

definition referenciaAtributo :: "char \<Rightarrow> string" where
  "referenciaAtributo c =
     (if c = CHR ''&'' then ''&amp;'' else if c = CHR ''<'' then ''&lt;''
      else if c = CHR 0x22 then ''&quot;'' else if c = CHR 0x09 then ''&#x9;''
      else if c = CHR 0x0A then ''&#xA;'' else if c = CHR 0x0D then ''&#xD;'' else [c])"

definition referenciaTexto :: "char \<Rightarrow> string" where
  "referenciaTexto c =
     (if c = CHR ''&'' then ''&amp;'' else if c = CHR ''<'' then ''&lt;''
      else if c = CHR ''>'' then ''&gt;'' else if c = CHR 0x0D then ''&#xD;'' else [c])"

text \<open>
  A comparator is an order on a set when, read as \<open>cmp a b \<le> 0\<close>, it is total,
  transitive and antisymmetric there; a collation is a total order when it is one on all
  strings.
\<close>

definition ordenEn :: "'a set \<Rightarrow> ('a \<Rightarrow> 'a \<Rightarrow> int) \<Rightarrow> bool" where
  "ordenEn S cmp \<longleftrightarrow>
     (\<forall>a\<in>S. \<forall>b\<in>S. cmp a b \<le> 0 \<or> cmp b a \<le> 0)
     \<and> (\<forall>a\<in>S. \<forall>b\<in>S. \<forall>c\<in>S. cmp a b \<le> 0 \<longrightarrow> cmp b c \<le> 0 \<longrightarrow> cmp a c \<le> 0)
     \<and> (\<forall>a\<in>S. \<forall>b\<in>S. cmp a b \<le> 0 \<longrightarrow> cmp b a \<le> 0 \<longrightarrow> a = b)"

definition ordenTotal :: "(string \<Rightarrow> string \<Rightarrow> int) \<Rightarrow> bool" where
  "ordenTotal lc \<longleftrightarrow> ordenEn UNIV lc"

text \<open>Comparison by code units: a collation that is a total order.\<close>

fun compararCodigos :: "string \<Rightarrow> string \<Rightarrow> int" where
  "compararCodigos [] [] = 0"
| "compararCodigos [] (y # ys) = - 1"
| "compararCodigos (x # xs) [] = 1"
| "compararCodigos (x # xs) (y # ys) =
     (if (of_char x :: nat) < of_char y then - 1
      else if (of_char y :: nat) < of_char x then 1
      else compararCodigos xs ys)"

text \<open>
  An attribute name is regular when, if it starts with \<open>xmlns\<close>, it is \<open>xmlns\<close> or
  \<open>xmlns:\<close> followed by a prefix, and otherwise it does not start with a colon. A tree is
  regular when the attribute names of each element are distinct and regular.
\<close>

definition nombreRegular :: "string \<Rightarrow> bool" where
  "nombreRegular n \<longleftrightarrow>
     (if startsWith n ''xmlns'' then n = ''xmlns'' \<or> (startsWith n ''xmlns:'' \<and> 6 < length n)
      else \<not> startsWith n '':'')"

fun arbolRegular :: "node \<Rightarrow> bool" where
  "arbolRegular (Element tagName attrs childNodes) \<longleftrightarrow>
     distinct (map fst attrs) \<and> list_all nombreRegular (map fst attrs)
     \<and> list_all arbolRegular childNodes"
| "arbolRegular (Text v) \<longleftrightarrow> True"
| "arbolRegular OtherNode \<longleftrightarrow> True"

text \<open>Two trees that are equal except for the order of the attributes of their elements.\<close>

fun mismoArbol :: "node \<Rightarrow> node \<Rightarrow> bool" where
  "mismoArbol (Element tagName attrs childNodes) n \<longleftrightarrow>
     (case n of
        Element tagName' attrs' childNodes' \<Rightarrow>
          tagName = tagName' \<and> mset attrs = mset attrs' \<and> list_all2 mismoArbol childNodes childNodes'
      | _ \<Rightarrow> False)"
| "mismoArbol (Text v) n \<longleftrightarrow> n = Text v"
| "mismoArbol OtherNode n \<longleftrightarrow> n = OtherNode"

text \<open>The namespace declarations among the attributes, the entry \<open>extractNamespaces\<close>
  stores for one, and the declaration \<open>getSortedNamespaces\<close> writes for an entry.\<close>

definition esXmlns :: "string \<times> string \<Rightarrow> bool" where
  "esXmlns a \<longleftrightarrow> startsWith (fst a) ''xmlns''"

definition prefijo :: "string \<times> string \<Rightarrow> string \<times> string" where
  "prefijo a = (if fst a = ''xmlns'' then [] else drop 6 (fst a), snd a)"

definition declaracion :: "string \<times> string \<Rightarrow> string \<times> string" where
  "declaracion e = (if fst e = [] then ''xmlns'' else ''xmlns:'' @ fst e, snd e)"

text \<open>Reading a built tree: the child elements with a given tag, an attribute of an
  element, and the algorithms of the transforms of a \<open>Reference\<close>.\<close>

definition elementsNamed :: "string \<Rightarrow> node \<Rightarrow> node list" where
  "elementsNamed name n =
     (case n of
        Element t attrs cs \<Rightarrow>
          filter (\<lambda>c. case c of Element t' attrs' cs' \<Rightarrow> t' = name | _ \<Rightarrow> False) cs
      | _ \<Rightarrow> [])"

definition getAttribute :: "string \<Rightarrow> node \<Rightarrow> string option" where
  "getAttribute name n = (case n of Element t attrs cs \<Rightarrow> map_of attrs name | _ \<Rightarrow> None)"

definition transformAlgorithms :: "node \<Rightarrow> string option list" where
  "transformAlgorithms reference =
     map (getAttribute ''Algorithm'')
       (concat (map (elementsNamed ''ds:Transform'') (elementsNamed ''ds:Transforms'' reference)))"

text \<open>
  Reading a template string: \<open>etiquetas None s\<close> lists the tags of \<open>s\<close>, each the text
  between a \<open><\<close> and the next \<open>>\<close> (the accumulator holds the open tag reversed). A
  string without marks contains neither character.
\<close>

fun etiquetas :: "string option \<Rightarrow> string \<Rightarrow> string list" where
  "etiquetas None [] = []"
| "etiquetas (Some r) [] = []"
| "etiquetas None (c # cs) =
     (if c = CHR ''<'' then etiquetas (Some []) cs else etiquetas None cs)"
| "etiquetas (Some r) (c # cs) =
     (if c = CHR ''>'' then rev r # etiquetas None cs else etiquetas (Some (c # r)) cs)"

definition sinMarcas :: "string \<Rightarrow> bool" where
  "sinMarcas s \<longleftrightarrow> CHR ''<'' \<notin> set s \<and> CHR ''>'' \<notin> set s"

text \<open>The attempts called in a trace, an attempt that failed with a retryable error, and
  an attempt answered with an \<open>estado\<close> that is neither \<open>RECIBIDA\<close> nor \<open>DEVUELTA\<close>.\<close>

definition llamadas :: "evento list \<Rightarrow> nat list" where
  "llamadas tr = concat (map (\<lambda>ev. case ev of Llamada a \<Rightarrow> [a] | Espera d \<Rightarrow> []) tr)"

definition reintentable :: "'r intento \<Rightarrow> bool" where
  "reintentable x = (case x of Falla e \<Rightarrow> isRetryableError e | Respuesta r \<Rightarrow> False)"

definition sinClasificar :: "ValidarComprobanteResponse intento \<Rightarrow> bool" where
  "sinClasificar x =
     (case x of
        Respuesta r \<Rightarrow> estado r \<noteq> ''RECIBIDA'' \<and> estado r \<noteq> ''DEVUELTA''
      | Falla e \<Rightarrow> False)"

text \<open>A rejected response, a reception that fails twice before giving it, and a response
  with another \<open>estado\<close>.\<close>

definition respuestaDevuelta :: ValidarComprobanteResponse where
  "respuestaDevuelta =
     \<lparr>estado = ''DEVUELTA'',
      comprobantes =
        [\<lparr>claveAcceso = ''1501202401179214673900110010010000000011234567810'',
          mensajes = [\<lparr>identificador = ''35'', mensaje = ''ARCHIVO NO CUMPLE ESTRUCTURA XML'',
                       informacionAdicional = [], tipo = ''ERROR''\<rparr>]\<rparr>]\<rparr>"

definition recepcionInestable :: "nat \<Rightarrow> ValidarComprobanteResponse intento" where
  "recepcionInestable attempt =
     (if attempt < 3
      then Falla \<lparr>message = ''socket hang up'', responseStatus = None, code = None\<rparr>
      else Respuesta respuestaDevuelta)"

definition respuestaEnProceso :: ValidarComprobanteResponse where
  "respuestaEnProceso = \<lparr>estado = ''EN PROCESO'', comprobantes = []\<rparr>"

text \<open>
  The time elapsed at the head of the \<open>j\<close>-th iteration when every earlier one slept; a
  response that is pending (its first record is \<open>EN PROCESAMIENTO\<close>, or it has no record);
  a response whose first record is final. The \<open>k\<close>-th iteration goes on to the next one
  when its call gives a pending response, or when its call throws and the time elapsed
  after the call, plus the interval, is still below \<open>maxEspera\<close>.
\<close>

fun reloj :: "entornoConsulta \<Rightarrow> int \<Rightarrow> nat \<Rightarrow> int" where
  "reloj env intervalo 0 = 0"
| "reloj env intervalo (Suc j) =
     reloj env intervalo j + int (duracion env j) + intervalo + int (demora env j)"

definition pendiente :: "AutorizacionResponse \<Rightarrow> bool" where
  "pendiente r \<longleftrightarrow>
     (case autorizaciones r of [] \<Rightarrow> True | a # resto \<Rightarrow> estadoAutorizacion a = ''EN PROCESAMIENTO'')"

definition continua :: "entornoConsulta \<Rightarrow> int \<Rightarrow> int \<Rightarrow> nat \<Rightarrow> bool" where
  "continua env maxEspera intervalo k \<longleftrightarrow>
     (case consulta env k of
        Respuesta r \<Rightarrow> pendiente r
      | Falla e \<Rightarrow> reloj env intervalo k + int (duracion env k) + intervalo < maxEspera)"

definition terminal :: "AutorizacionResponse \<Rightarrow> bool" where
  "terminal r \<longleftrightarrow>
     (case autorizaciones r of
        [] \<Rightarrow> False
      | a # resto \<Rightarrow> estadoAutorizacion a = ''AUTORIZADO'' \<or> estadoAutorizacion a = ''NO AUTORIZADO'')"

text \<open>Four environments: one authorized at the fourth call, after a pending response, a
  response without records and a call that throws; one pending for ever; one whose first call throws after 61 seconds; one
  whose calls all throw.\<close>

definition respuestaDe :: "string list \<Rightarrow> AutorizacionResponse" where
  "respuestaDe estados =
     \<lparr>claveAccesoConsultada = ''1501202401179214673900110010010000000011234567810'',
      numeroComprobantes = ''1'',
      autorizaciones = map (\<lambda>e. \<lparr>estadoAutorizacion = e, numeroAutorizacion = None,
         fechaAutorizacion = None, ambienteAutorizacion = None, comprobanteAutorizado = None,
         mensajesAutorizacion = []\<rparr>) estados\<rparr>"

definition errorRed :: errorJS where
  "errorRed = \<lparr>message = ''socket hang up'', responseStatus = None, code = None\<rparr>"

definition entornoAutorizado :: entornoConsulta where
  "entornoAutorizado =
     \<lparr>consulta = (\<lambda>i. if i = 0 then Respuesta (respuestaDe [''EN PROCESAMIENTO''])
                       else if i = 1 then Respuesta (respuestaDe [])
                       else if i = 2 then Falla errorRed
                       else Respuesta (respuestaDe [''AUTORIZADO''])),
      duracion = (\<lambda>i. 200), demora = (\<lambda>i. 3)\<rparr>"

definition entornoPendiente :: entornoConsulta where
  "entornoPendiente =
     \<lparr>consulta = (\<lambda>i. Respuesta (respuestaDe [''EN PROCESAMIENTO''])),
      duracion = (\<lambda>i. 200), demora = (\<lambda>i. 3)\<rparr>"

definition entornoLento :: entornoConsulta where
  "entornoLento =
     \<lparr>consulta = (\<lambda>i. Falla errorRed), duracion = (\<lambda>i. 61000), demora = (\<lambda>i. 0)\<rparr>"

definition entornoCaido :: entornoConsulta where
  "entornoCaido =
     \<lparr>consulta = (\<lambda>i. Falla errorRed), duracion = (\<lambda>i. 200), demora = (\<lambda>i. 3)\<rparr>"

section \<open>Properties of the check digit\<close>

lemma isDigit_of_char: "isDigit c \<Longrightarrow> (of_char c :: nat) = 48 + digitVal c"
  by (simp add: isDigit_def digitVal_def)

lemma parseInt_single: "parseInt [c] = (if isDigit c then Some (int (digitVal c)) else None)"
  by (auto simp: parseInt_def Let_def isDigit_def isWhiteSpace_def)

lemma sumaPaso_Some:
  "sumaPaso (Some a) c m = (if isDigit c then Some (a + int (digitVal c * m)) else None)"
  by (simp add: sumaPaso_def parseInt_single)

lemma sumaPaso_None: "sumaPaso None c m = None"
  by (simp add: sumaPaso_def)

lemma foldl_sumaPaso:
  "allDigits s \<Longrightarrow>
   foldl (\<lambda>suma (c, m). sumaPaso suma c m) (Some a) (zip s ms) = Some (a + int (ponderada s ms))"
proof (induction s arbitrary: a ms)
  case Nil
  then show ?case by (simp add: ponderada_def)
next
  case (Cons c s)
  show ?case
  proof (cases ms)
    case Nil
    then show ?thesis by (simp add: ponderada_def)
  next
    case (Cons m ms')
    from Cons.prems have c: "isDigit c" and s: "allDigits s"
      by (simp_all add: allDigits_def)
    show ?thesis
      using Cons.IH [OF s, of "a + int (digitVal c * m)" ms'] c
      by (simp add: Cons sumaPaso_Some ponderada_def)
  qed
qed

lemma sumaDerecha_digits:
  "allDigits cs \<Longrightarrow> fi < 6 \<Longrightarrow>
   sumaDerecha cs fi (Some a) =
     Some (a + int (ponderada cs (map (\<lambda>j. factores ! ((fi + j) mod 6)) [0..<length cs])))"
proof (induction cs arbitrary: fi a)
  case Nil
  then show ?case by (simp add: ponderada_def)
next
  case (Cons c cs)
  from Cons.prems have c: "isDigit c" and s: "allDigits cs"
    by (simp_all add: allDigits_def)
  have len: "length factores = 6" by (simp add: factores_def)
  have shift: "map (\<lambda>j. factores ! ((fi + j) mod 6)) [0..<Suc (length cs)]
      = factores ! fi # map (\<lambda>j. factores ! (((fi + 1) mod 6 + j) mod 6)) [0..<length cs]"
    using Cons.prems(2)
    by (simp add: upt_conv_Cons map_Suc_upt [symmetric] mod_simps del: upt_Suc)
  show ?case
    using Cons.IH [OF s, of "(fi + 1) mod 6" "a + int (digitVal c * factores ! fi)"] c
    by (simp add: len sumaPaso_Some shift ponderada_def del: upt_Suc)
qed

lemma factores_rev: "map (\<lambda>j. factores ! (j mod 6)) [0..<48] = rev multiplicadores"
  by code_simp

lemma ponderada_rev:
  "length s = length ms \<Longrightarrow> ponderada (rev s) (rev ms) = ponderada s ms"
  by (simp add: ponderada_def zip_rev rev_map [symmetric])


lemma length_multiplicadores: "length multiplicadores = 48"
  by (simp add: multiplicadores_def)

lemma calcularModulo11_digits:
  "length s = 48 \<Longrightarrow> allDigits s \<Longrightarrow>
   calcularModulo11 s = Inr (digitoDeSuma (Some (int (ponderada s multiplicadores))))"
  by (simp add: calcularModulo11_def foldl_sumaPaso)

lemma builder_digits:
  assumes "length s = 48" and "allDigits s"
  shows "calcularModulo11Builder s = digitoDeSuma (Some (int (ponderada s multiplicadores)))"
proof -
  have "allDigits (rev s)" using assms(2) by (simp add: allDigits_def list_all_iff)
  then have "sumaDerecha (rev s) 0 (Some 0)
      = Some (int (ponderada (rev s) (map (\<lambda>j. factores ! (j mod 6)) [0..<48])))"
    using sumaDerecha_digits [of "rev s" 0 0] assms(1) by simp
  also have "\<dots> = Some (int (ponderada (rev s) (rev multiplicadores)))"
    by (simp only: factores_rev)
  also have "\<dots> = Some (int (ponderada s multiplicadores))"
    using assms(1) by (simp add: ponderada_rev length_multiplicadores)
  finally show ?thesis by (simp add: calcularModulo11Builder_def)
qed

text \<open>
  Claim C10. The two check-digit implementations agree: on every string of exactly 48
  ASCII digits, \<open>ClaveAccesoService.calcularModulo11\<close> (weights 7, 6, 5, 4, 3, 2 from the
  left) and \<open>InvoiceXMLBuilder.calcularModulo11\<close> (factors 2, 3, 4, 5, 6, 7 from the right)
  return the same check digit.
\<close>

theorem modulo11_implementations_agree:
  "length s = 48 \<Longrightarrow> allDigits s \<Longrightarrow> calcularModulo11 s = Inr (calcularModulo11Builder s)"
  by (simp add: calcularModulo11_digits builder_digits)

text \<open>The two hypotheses hold at a key base of the known vector, where both give 0.\<close>

theorem modulo11_implementations_agree_witness:
  "length ''150120240117921467390011001001000000001123456781'' = 48
   \<and> allDigits ''150120240117921467390011001001000000001123456781''
   \<and> calcularModulo11 ''150120240117921467390011001001000000001123456781'' = Inr ''0''
   \<and> calcularModulo11Builder ''150120240117921467390011001001000000001123456781'' = ''0''"
proof -
  have l: "length ''150120240117921467390011001001000000001123456781'' = 48" by simp
  have d: "allDigits ''150120240117921467390011001001000000001123456781''" by code_simp
  have b: "calcularModulo11Builder ''150120240117921467390011001001000000001123456781'' = ''0''"
    by code_simp
  show ?thesis using modulo11_implementations_agree [OF l d] l d b by simp
qed


lemma natToString_small: "n < 10 \<Longrightarrow> natToString n = [digitChar n]"
  by (simp add: natToString.simps)

lemma digitoDeSuma_nat:
  "digitoDeSuma (Some (int n)) = [digitChar (digitoDeResiduo (n mod 11))]"
proof -
  let ?r = "n mod 11"
  have r: "int n mod 11 = int ?r" by (simp add: zmod_int)
  have lt: "?r < 11" by simp
  have dv: "(let dv = 11 - int ?r in if dv = 11 then 0 else if dv = 10 then 1 else dv)
      = int (digitoDeResiduo ?r)"
    using lt unfolding digitoDeResiduo_def Let_def by (auto simp: of_nat_diff)
  have small: "digitoDeResiduo ?r < 10"
    using lt by (auto simp: digitoDeResiduo_def)
  have "digitoDeSuma (Some (int n)) = intToString (int (digitoDeResiduo ?r))"
    unfolding digitoDeSuma_def numToString_def by (simp only: option.map r dv option.case)
  also have "\<dots> = [digitChar (digitoDeResiduo ?r)]"
    using small by (simp add: intToString_def natToString_small)
  finally show ?thesis .
qed

lemma digitChar_inj: "a < 10 \<Longrightarrow> b < 10 \<Longrightarrow> digitChar a = digitChar b \<longleftrightarrow> a = b"
proof
  assume a: "a < 10" and b: "b < 10" and e: "digitChar a = digitChar b"
  have "(of_char (digitChar a) :: nat) = of_char (digitChar b)" using e by simp
  then show "a = b" using a b by (simp add: digitChar_def)
qed simp

lemma digitoDeResiduo_lt: "r < 11 \<Longrightarrow> digitoDeResiduo r < 10"
  by (auto simp: digitoDeResiduo_def)

lemma digitoDeResiduo_eq:
  "r < 11 \<Longrightarrow> r' < 11 \<Longrightarrow>
   digitoDeResiduo r = digitoDeResiduo r' \<longleftrightarrow> r = r' \<or> (r = 1 \<and> r' = 10) \<or> (r = 10 \<and> r' = 1)"
  by (auto simp: digitoDeResiduo_def)

lemma isDigit_digitChar: "n < 10 \<Longrightarrow> isDigit (digitChar n)"
  by (simp add: isDigit_def digitChar_def)

lemma validate_iff:
  "validate k = Inr True \<longleftrightarrow>
     length k = 49 \<and> allDigits k \<and> drop 48 k = [digitChar (digitoDeResiduo (residuo (take 48 k)))]"
proof (cases "length k = 49 \<and> allDigits k")
  case True
  then have t: "length (take 48 k) = 48" "allDigits (take 48 k)"
    by (auto simp: allDigits_def list_all_iff dest: in_set_takeD)
  have ne: "k \<noteq> []" using True by auto
  show ?thesis
    using True ne
    by (simp add: validate_def substring_def calcularModulo11_digits [OF t] digitoDeSuma_nat
        residuo_def)
next
  case False
  then show ?thesis by (auto simp: validate_def)
qed

lemma ponderada_update:
  "i < length s \<Longrightarrow> i < length ms \<Longrightarrow>
   ponderada (s[i := d]) ms + digitVal (s ! i) * ms ! i = ponderada s ms + digitVal d * ms ! i"
proof (induction s arbitrary: i ms)
  case Nil
  then show ?case by simp
next
  case (Cons c s)
  then obtain m ms' where ms: "ms = m # ms'" by (cases ms) auto
  show ?case
  proof (cases i)
    case 0
    then show ?thesis by (simp add: ms ponderada_def)
  next
    case (Suc j)
    with Cons.prems ms have "j < length s" "j < length ms'" by simp_all
    from Cons.IH [OF this] show ?thesis
      by (simp add: ms Suc ponderada_def)
  qed
qed

lemma multiplicadores_range: "i < 48 \<Longrightarrow> 2 \<le> multiplicadores ! i \<and> multiplicadores ! i \<le> 7"
proof -
  assume "i < 48"
  then have "multiplicadores ! i \<in> set multiplicadores"
    by (simp add: length_multiplicadores)
  then show ?thesis by (auto simp: multiplicadores_def)
qed

lemma peso_tabla:
  "\<forall>w\<in>set [2..<8]. \<forall>a\<in>set [0..<10]. \<forall>b\<in>set [0..<10].
     a = b \<or> (a * w) mod 11 \<noteq> (b * w) mod (11::nat)"
  by code_simp

lemma mod11_cancel:
  fixes p q r :: nat
  assumes "(r + p) mod 11 = (r + q) mod 11" "p < 11" "q < 11"
  shows "p = q"
proof (cases "p \<le> q")
  case True
  then have "11 dvd (r + q) - (r + p)"
    using assms(1) mod_eq_dvd_iff_nat [of "r + p" "r + q" 11] by simp
  then have "11 dvd q - p" by simp
  then show ?thesis using assms(2,3) True by (auto dest: dvd_imp_le)
next
  case False
  then have "11 dvd (r + p) - (r + q)"
    using assms(1) mod_eq_dvd_iff_nat [of "r + q" "r + p" 11] by simp
  then have "11 dvd p - q" by simp
  then show ?thesis using assms(2,3) False by (auto dest: dvd_imp_le)
qed

lemma peso_no_cancela:
  fixes a b w x y :: nat
  assumes "2 \<le> w" "w \<le> 7" "a \<le> 9" "b \<le> 9" "a \<noteq> b" "x + a * w = y + b * w"
  shows "x mod 11 \<noteq> y mod 11"
proof
  assume e: "x mod 11 = y mod 11"
  have "(x mod 11 + (a * w) mod 11) mod 11 = (y mod 11 + (b * w) mod 11) mod 11"
    using assms(6) by (simp only: mod_add_eq)
  then have "(a * w) mod 11 = (b * w) mod 11"
    using mod11_cancel [of "x mod 11" "(a * w) mod 11" "(b * w) mod 11"] by (simp add: e)
  moreover have "w \<in> set [2..<8]" "a \<in> set [0..<10]" "b \<in> set [0..<10]"
    using assms(1-4) by auto
  ultimately show False using assms(5) peso_tabla by blast
qed
lemma isDigit_val: "isDigit c \<Longrightarrow> digitVal c \<le> 9"
  unfolding isDigit_def digitVal_def by arith

lemma digitVal_inj: "isDigit c \<Longrightarrow> isDigit d \<Longrightarrow> digitVal c = digitVal d \<Longrightarrow> c = d"
proof -
  assume "isDigit c" "isDigit d" "digitVal c = digitVal d"
  then have "(of_char c :: nat) = of_char d" unfolding isDigit_def digitVal_def by arith
  then show ?thesis by simp
qed

lemma mutation_changes_residuo:
  assumes s: "length s = 48" "allDigits s" and i: "i < 48" and d: "isDigit d" "d \<noteq> s ! i"
  shows "residuo (s[i := d]) \<noteq> residuo s"
proof -
  have si: "isDigit (s ! i)" using s i by (simp add: allDigits_def list_all_length)
  have ne: "digitVal (s ! i) \<noteq> digitVal d" using digitVal_inj [OF d(1) si] d(2) by auto
  have "ponderada (s[i := d]) multiplicadores + digitVal (s ! i) * multiplicadores ! i
        = ponderada s multiplicadores + digitVal d * multiplicadores ! i"
    using ponderada_update [of i s multiplicadores d] s(1) i by (simp add: length_multiplicadores)
  from peso_no_cancela [OF _ _ isDigit_val [OF si] isDigit_val [OF d(1)] ne this]
    multiplicadores_range [OF i]
  show ?thesis by (simp add: residuo_def)
qed

text \<open>
  Claim C2, as amended. Let \<open>k\<close> be a valid access key, \<open>i\<close> a position in its first 48
  digits and \<open>d\<close> a digit other than the one at \<open>i\<close>. The mutation always changes the
  weighted sum modulo 11, and \<open>validate\<close> of the mutated key is false except when the two
  remainders are 1 and 10 (in either order): both are mapped to the check digit 1, and then
  \<open>validate\<close> stays true.
\<close>

theorem single_digit_mutation:
  assumes "validate k = Inr True" and "i < 48" and "isDigit d" and "d \<noteq> k ! i"
  shows "validate (k[i := d]) = Inr True \<longleftrightarrow>
           (residuo (take 48 k) = 1 \<and> residuo (take 48 (k[i := d])) = 10)
         \<or> (residuo (take 48 k) = 10 \<and> residuo (take 48 (k[i := d])) = 1)"
proof -
  let ?s = "take 48 k"
  from assms(1) have k: "length k = 49" "allDigits k"
    and last: "drop 48 k = [digitChar (digitoDeResiduo (residuo ?s))]"
    by (simp_all add: validate_iff)
  have s: "length ?s = 48" "allDigits ?s"
    using k by (auto simp: allDigits_def list_all_iff dest: in_set_takeD)
  have si: "?s ! i = k ! i" using assms(2) by simp
  have t: "take 48 (k[i := d]) = ?s[i := d]" by (simp add: take_update_swap)
  have dr: "drop 48 (k[i := d]) = drop 48 k" using assms(2) by simp
  have k': "length (k[i := d]) = 49" "allDigits (k[i := d])"
    using k assms(3) by (auto simp: allDigits_def list_all_iff dest: set_update_subset_insert [THEN subsetD])
  have ne: "residuo (?s[i := d]) \<noteq> residuo ?s"
    using mutation_changes_residuo [OF s assms(2,3)] assms(4) si by simp
  have lt: "residuo ?s < 11" "residuo (?s[i := d]) < 11" by (simp_all add: residuo_def)
  have "validate (k[i := d]) = Inr True \<longleftrightarrow>
          digitoDeResiduo (residuo ?s) = digitoDeResiduo (residuo (?s[i := d]))"
    using k' by (simp add: validate_iff [of "k[i := d]"] dr last t digitChar_inj digitoDeResiduo_lt lt)
  also have "\<dots> \<longleftrightarrow> (residuo ?s = 1 \<and> residuo (?s[i := d]) = 10)
                 \<or> (residuo ?s = 10 \<and> residuo (?s[i := d]) = 1)"
    using ne by (auto simp: digitoDeResiduo_eq [OF lt])
  finally show ?thesis by (simp only: t)
qed


text \<open>
  The hypotheses hold at the key of the known vector with its first digit changed from 1
  to 2: the remainder was 0, and the mutation is detected.
\<close>

theorem single_digit_mutation_witness:
  "validate ''1501202401179214673900110010010000000011234567810'' = Inr True
   \<and> (0::nat) < 48 \<and> isDigit (CHR ''2'') \<and> CHR ''2'' \<noteq> ''1501202401179214673900110010010000000011234567810'' ! 0
   \<and> validate (''1501202401179214673900110010010000000011234567810''[0 := CHR ''2'']) \<noteq> Inr True"
proof -
  have v: "validate ''1501202401179214673900110010010000000011234567810'' = Inr True"
    by code_simp
  have i: "(0::nat) < 48" by simp
  have d: "isDigit (CHR ''2'')" by code_simp
  have ne: "CHR ''2'' \<noteq> ''1501202401179214673900110010010000000011234567810'' ! 0"
    by simp
  have r: "residuo (take 48 ''1501202401179214673900110010010000000011234567810'') = 0"
    by code_simp
  from single_digit_mutation [OF v i d ne] r
  have "validate (''1501202401179214673900110010010000000011234567810''[0 := CHR ''2'']) \<noteq> Inr True"
    by simp
  with v i d ne show ?thesis by blast
qed

text \<open>
  Claim C2 as stated fails: the key below is valid, and changing the digit at position 43
  (weight 6) from 2 to 9 moves the remainder from 1 to 10, so the mutated key is valid too.
\<close>

theorem single_digit_mutation_counterexample:
  "validate ''0000000000000000000000000000000000000000000200001'' = Inr True
   \<and> (43::nat) < 48 \<and> isDigit (CHR ''9'') \<and> CHR ''9'' \<noteq> ''0000000000000000000000000000000000000000000200001'' ! 43
   \<and> validate (''0000000000000000000000000000000000000000000200001''[43 := CHR ''9'']) = Inr True"
  by code_simp

section \<open>Properties of \<open>generate\<close>\<close>

lemma allDigits_append [simp]: "allDigits (a @ b) \<longleftrightarrow> allDigits a \<and> allDigits b"
  by (simp add: allDigits_def)

lemma allDigits_natToString: "allDigits (natToString n)"
proof (induction n rule: natToString.induct)
  case (1 n)
  show ?case
  proof (cases "n < 10")
    case True
    then show ?thesis
      by (simp add: natToString_small allDigits_def isDigit_digitChar)
  next
    case False
    then have "natToString n = natToString (n div 10) @ [digitChar (n mod 10)]"
      by (subst natToString.simps) simp
    with 1 False show ?thesis
      by (simp add: allDigits_def isDigit_digitChar)
  qed
qed

lemma length_natToString:
  "10 ^ k \<le> n \<Longrightarrow> n < 10 ^ Suc k \<Longrightarrow> length (natToString n) = Suc k"
proof (induction k arbitrary: n)
  case 0
  then show ?case by (simp add: natToString_small)
next
  case (Suc k)
  then have big: "\<not> n < 10"
    using one_le_power [of "10::nat" k] by (auto simp: not_less intro: order_trans [of _ "10 * 10 ^ k"])
  have "10 ^ k \<le> n div 10" "n div 10 < 10 ^ Suc k"
    using Suc.prems by (simp_all add: less_mult_imp_div_less) 
  from Suc.IH [OF this] have "length (natToString (n div 10)) = Suc k" .
  then show ?case using big by (subst natToString.simps) simp
qed

lemma length_codigoNumerico: "r < 90000000 \<Longrightarrow> length (generateCodigoNumerico r) = 8"
  using length_natToString [of 7 "r + 10000000"] by (simp add: generateCodigoNumerico_def)

lemma allDigits_padStart [simp]: "allDigits (padStart n s) \<longleftrightarrow> allDigits s"
  by (auto simp: padStart_def allDigits_def list_all_iff isDigit_def)

lemma length_padStart: "length (padStart n s) = max n (length s)"
  by (simp add: padStart_def)

lemma generate_Inr:
  assumes "generate dp p r = Inr k"
  shows "length k = 49 \<and> allDigits k \<and> validate k = Inr True"
proof -
  from assms obtain c dv where c: "length c = 48" and dv: "calcularModulo11 c = Inr dv"
    and k: "k = c @ dv" and ok: "length (c @ dv) = 49" "allDigits (c @ dv)"
    unfolding generate_def Let_def
    by (auto split: if_splits sum.splits)
  have "substring k 0 48 = c" "substring k 48 49 = dv"
    using c ok(1) by (simp_all add: k substring_def)
  then show ?thesis using ok dv by (auto simp: validate_def k)
qed

lemma generate_returns:
  assumes v: "validateParams p = []"
    and f: "formatFecha dp (fechaEmision p) = Inr fe" "length fe = 8" "allDigits fe"
    and s: "allDigits (secuencial p)" "length (secuencial p) \<le> 9"
    and r: "r < 90000000"
  shows "\<exists>dv. generate dp p r =
     Inr (fe @ tipoComprobante p @ ruc p @ intToString (ambiente p) @ establecimiento p
          @ puntoEmision p @ padStart 9 (secuencial p) @ generateCodigoNumerico r
          @ intToString (tipoEmision p) @ dv)"
proof -
  from v have ruc: "length (ruc p) = 13" "allDigits (take 10 (ruc p))" "drop 10 (ruc p) = ''001''"
    and amb: "intToString (ambiente p) = ''1'' \<or> intToString (ambiente p) = ''2''"
    and te: "intToString (tipoEmision p) = ''1'' \<or> intToString (tipoEmision p) = ''2''"
    and est: "length (establecimiento p) = 3" "allDigits (establecimiento p)"
    and pe: "length (puntoEmision p) = 3" "allDigits (puntoEmision p)"
    and tc: "tipoComprobante p \<in> set tiposValidos"
    unfolding validateParams_def by (simp_all split: if_splits)
  have rucd: "allDigits (ruc p)"
  proof -
    have "allDigits (drop 10 (ruc p))" by (simp add: ruc(3) allDigits_def isDigit_def)
    with ruc(2) have "allDigits (take 10 (ruc p) @ drop 10 (ruc p))"
      by (simp only: allDigits_append)
    then show ?thesis by simp
  qed
  have tcl: "length (tipoComprobante p) = 2" "allDigits (tipoComprobante p)"
    using tc by (auto simp: tiposValidos_def allDigits_def isDigit_def)
  have ambl: "length (intToString (ambiente p)) = 1" "allDigits (intToString (ambiente p))"
    using amb by (auto simp: allDigits_def isDigit_def)
  have tel: "length (intToString (tipoEmision p)) = 1" "allDigits (intToString (tipoEmision p))"
    using te by (auto simp: allDigits_def isDigit_def)
  have cn: "length (generateCodigoNumerico r) = 8" "allDigits (generateCodigoNumerico r)"
    using r length_codigoNumerico by (simp_all add: generateCodigoNumerico_def allDigits_natToString)
  have pads: "padStart 2 (tipoComprobante p) = tipoComprobante p" "padStart 13 (ruc p) = ruc p"
    "padStart 3 (establecimiento p) = establecimiento p" "padStart 3 (puntoEmision p) = puntoEmision p"
    using tcl ruc est pe by (simp_all add: padStart_def)
  let ?c = "claveSinDigito fe p (generateCodigoNumerico r)"
  have len: "length ?c = 48"
    using f(2) tcl(1) ruc(1) ambl(1) est(1) pe(1) s(2) cn(1) tel(1)
    by (simp add: claveSinDigito_def length_padStart)
  have dig: "allDigits ?c"
    using f(3) tcl(2) rucd ambl(2) est(2) pe(2) s(1) cn(2) tel(2)
    by (simp add: claveSinDigito_def)
  let ?dv = "[digitChar (digitoDeResiduo (residuo ?c))]"
  have m: "calcularModulo11 ?c = Inr ?dv"
    by (simp only: calcularModulo11_digits [OF len dig] digitoDeSuma_nat residuo_def)
  have dvd: "allDigits ?dv"
    by (simp add: allDigits_def isDigit_digitChar digitoDeResiduo_lt residuo_def)
  have "generate dp p r = Inr (?c @ ?dv)"
    unfolding generate_def Let_def
    using v f(1) len dig m dvd by simp
  then show ?thesis by (intro exI [of _ ?dv]) (simp add: claveSinDigito_def pads)
qed


text \<open>
  Claim C1, as amended. For a parameter set accepted by \<open>validateParams\<close>, whatever
  \<open>generate\<close> returns is a string of exactly 49 ASCII digits on which \<open>validate\<close> is true;
  and \<open>generate\<close> does return when, in addition, the date formats to 8 digits (a valid date
  with a four-digit year), \<open>secuencial\<close> is made of at most 9 digits and the random draw is
  in its range. Otherwise \<open>generate\<close> may throw at one of its later guards.
\<close>

theorem generate_round_trip:
  assumes "validateParams p = []"
  shows "(\<forall>k. generate dp p r = Inr k \<longrightarrow> length k = 49 \<and> allDigits k \<and> validate k = Inr True)
       \<and> ((\<exists>fe. formatFecha dp (fechaEmision p) = Inr fe \<and> length fe = 8 \<and> allDigits fe)
            \<and> allDigits (secuencial p) \<and> length (secuencial p) \<le> 9 \<and> r < 90000000
          \<longrightarrow> (\<exists>k. generate dp p r = Inr k))"
proof (rule conjI)
  show "\<forall>k. generate dp p r = Inr k \<longrightarrow> length k = 49 \<and> allDigits k \<and> validate k = Inr True"
    using generate_Inr by blast
next
  show "(\<exists>fe. formatFecha dp (fechaEmision p) = Inr fe \<and> length fe = 8 \<and> allDigits fe)
            \<and> allDigits (secuencial p) \<and> length (secuencial p) \<le> 9 \<and> r < 90000000
          \<longrightarrow> (\<exists>k. generate dp p r = Inr k)"
  proof
    assume h: "(\<exists>fe. formatFecha dp (fechaEmision p) = Inr fe \<and> length fe = 8 \<and> allDigits fe)
            \<and> allDigits (secuencial p) \<and> length (secuencial p) \<le> 9 \<and> r < 90000000"
    then obtain fe where fe: "formatFecha dp (fechaEmision p) = Inr fe" "length fe = 8" "allDigits fe"
      by blast
    from h have s: "allDigits (secuencial p)" "length (secuencial p) \<le> 9" "r < 90000000"
      by simp_all
    from generate_returns [OF assms fe s] show "\<exists>k. generate dp p r = Inr k"
      by blast
  qed
qed

lemma codigo_2345678: "generateCodigoNumerico 2345678 = ''12345678''"
proof -
  have "generateCodigoNumerico 2345678 = map digitChar [1, 2, 3, 4, 5, 6, 7, 8]"
    by (simp add: generateCodigoNumerico_def natToString.simps)
  also have "\<dots> = ''12345678''" by code_simp
  finally show ?thesis .
qed

lemma generate_vector_2345678:
  "generate (\<lambda>_. None) (vectorConocido (FechaString ''15/01/2024'')) 2345678
     = Inr ''1501202401179214673900110010010000000011234567810''"
proof -
  let ?p = "vectorConocido (FechaString ''15/01/2024'')"
  let ?c = "''150120240117921467390011001001000000001123456781''"
  have v: "validateParams ?p = []" by code_simp
  have f: "formatFecha (\<lambda>_. None) (fechaEmision ?p) = Inr ''15012024''" by code_simp
  have c: "claveSinDigito ''15012024'' ?p ''12345678'' = ?c" by code_simp
  have l: "length ?c = 48" by simp
  have d: "allDigits ?c" by code_simp
  have m: "calcularModulo11 ?c = Inr ''0''" by code_simp
  have d': "allDigits (?c @ ''0'')" by code_simp
  show ?thesis
    unfolding generate_def Let_def
    by (simp only: v f codigo_2345678 c sum.case l d m d' if_False if_True simp_thms)
       simp
qed

text \<open>The hypotheses hold at the known vector, with the random draw 2345678.\<close>

theorem generate_round_trip_witness:
  "validateParams (vectorConocido (FechaString ''15/01/2024'')) = []
   \<and> formatFecha (\<lambda>_. None) (fechaEmision (vectorConocido (FechaString ''15/01/2024'')))
       = Inr ''15012024''
   \<and> length ''15012024'' = 8 \<and> allDigits ''15012024''
   \<and> allDigits (secuencial (vectorConocido (FechaString ''15/01/2024'')))
   \<and> length (secuencial (vectorConocido (FechaString ''15/01/2024''))) \<le> 9
   \<and> (2345678::nat) < 90000000
   \<and> generate (\<lambda>_. None) (vectorConocido (FechaString ''15/01/2024'')) 2345678 = Inr ''1501202401179214673900110010010000000011234567810''
   \<and> length ''1501202401179214673900110010010000000011234567810'' = 49 \<and> allDigits ''1501202401179214673900110010010000000011234567810'' \<and> validate ''1501202401179214673900110010010000000011234567810'' = Inr True"
proof -
  let ?p = "vectorConocido (FechaString ''15/01/2024'')"
  have v: "validateParams ?p = []" by code_simp
  have f: "formatFecha (\<lambda>_. None) (fechaEmision ?p) = Inr ''15012024''" by code_simp
  have l: "length ''15012024'' = 8" "allDigits ''15012024''" by code_simp+
  have s: "allDigits (secuencial ?p)" "length (secuencial ?p) \<le> 9" by code_simp+
  have r: "(2345678::nat) < 90000000" by simp
  have g: "generate (\<lambda>_. None) ?p 2345678 = Inr ''1501202401179214673900110010010000000011234567810''"
    by (rule generate_vector_2345678)
  from generate_round_trip [OF v, of "\<lambda>_. None" 2345678] g
  have "length ''1501202401179214673900110010010000000011234567810'' = 49 \<and> allDigits ''1501202401179214673900110010010000000011234567810'' \<and> validate ''1501202401179214673900110010010000000011234567810'' = Inr True"
    by blast
  with v f l s r g show ?thesis by blast
qed

text \<open>
  Claim C1 as stated fails: \<open>validateParams\<close> reads \<open>secuencial\<close> with \<open>parseInt\<close>, which
  accepts \<open>12abc\<close> as 12, and \<open>generate\<close> then throws at its digits-only guard instead of
  returning a key.
\<close>

theorem generate_round_trip_counterexample:
  "validateParams ((vectorConocido (FechaString ''15/01/2024''))\<lparr>secuencial := ''12abc''\<rparr>) = []
   \<and> generate (\<lambda>_. None)
        ((vectorConocido (FechaString ''15/01/2024''))\<lparr>secuencial := ''12abc''\<rparr>) 2345678
       = Inl ClaveBaseNoNumerica"
proof -
  let ?p = "(vectorConocido (FechaString ''15/01/2024''))\<lparr>secuencial := ''12abc''\<rparr>"
  let ?c = "''150120240117921467390011001001000012abc123456781''"
  have v: "validateParams ?p = []" by code_simp
  have f: "formatFecha (\<lambda>_. None) (fechaEmision ?p) = Inr ''15012024''" by code_simp
  have c: "claveSinDigito ''15012024'' ?p ''12345678'' = ?c" by code_simp
  have l: "length ?c = 48" by simp
  have d: "\<not> allDigits ?c" by code_simp
  have "generate (\<lambda>_. None) ?p 2345678 = Inl ClaveBaseNoNumerica"
    unfolding generate_def Let_def
    by (simp only: v f codigo_2345678 c sum.case l d if_False if_True simp_thms)
  with v show ?thesis by blast
qed

lemma formatFecha_partes:
  "CHR ''/'' \<in> set s \<Longrightarrow> length (split (CHR ''/'') s) = 3 \<Longrightarrow>
   formatFecha dp (FechaString s) = formatFecha (\<lambda>_. None) (FechaString s)"
  by (simp add: formatFecha_def Let_def)

lemma formatFecha_vector_string:
  "formatFecha dp (FechaString ''15/01/2024'') = Inr ''15012024''"
proof -
  have e: "formatFecha (\<lambda>_. None) (FechaString ''15/01/2024'') = Inr ''15012024''"
    by code_simp
  have "CHR ''/'' \<in> set ''15/01/2024''" by simp
  moreover have "length (split (CHR ''/'') ''15/01/2024'') = 3" by code_simp
  ultimately have "formatFecha dp (FechaString ''15/01/2024'')
      = formatFecha (\<lambda>_. None) (FechaString ''15/01/2024'')"
    by (rule formatFecha_partes)
  with e show ?thesis by (simp only:)
qed

lemma formatFecha_vector_date:
  "formatFecha dp (FechaDate (newDate (Some 2024) (Some 0) (Some 15))) = Inr ''15012024''"
proof -
  have "newDate (Some 2024) (Some 0) (Some 15) = Some 19737" by code_simp
  moreover have "padStart 2 (intToString (getDate 19737)) @ padStart 2 (intToString (getMonth 19737 + 1))
                  @ intToString (getFullYear 19737) = ''15012024''"
    by code_simp
  ultimately show ?thesis by (simp add: formatFecha_def)
qed

lemma validateParams_fecha: "validateParams (p\<lparr>fechaEmision := f\<rparr>) = validateParams p"
  by (simp add: validateParams_def)

lemma validateParams_vector: "validateParams (vectorConocido f) = []"
proof -
  have "validateParams (vectorConocido (FechaDate None)) = []" by code_simp
  moreover have "vectorConocido f = (vectorConocido (FechaDate None))\<lparr>fechaEmision := f\<rparr>"
    by (simp add: vectorConocido_def)
  ultimately show ?thesis by (simp only: validateParams_fecha)
qed

text \<open>
  Claim C3. For the date 15/01/2024 (as the string \<open>15/01/2024\<close> or as the \<open>Date\<close> of the
  test, \<open>new Date(2024, 0, 15)\<close>), document type 01, tax id 1792146739001, environment 1,
  establishment 001, emission point 001, sequence 000000001 and emission type 1, and for
  every value of the random draw, \<open>generate\<close> returns a key whose first 24 digits are
  150120240117921467390011, whose length is 49 and on which \<open>validate\<close> is true.
\<close>

theorem known_vector:
  assumes "f = FechaString ''15/01/2024'' \<or> f = FechaDate (newDate (Some 2024) (Some 0) (Some 15))"
    and "r < 90000000"
  shows "\<exists>k. generate dp (vectorConocido f) r = Inr k
           \<and> take 24 k = ''150120240117921467390011'' \<and> length k = 49 \<and> validate k = Inr True"
proof -
  let ?p = "vectorConocido f"
  have fe: "formatFecha dp (fechaEmision ?p) = Inr ''15012024''"
    using assms(1) by (auto simp: vectorConocido_def formatFecha_vector_string formatFecha_vector_date)
  have s: "allDigits (secuencial ?p)" "length (secuencial ?p) \<le> 9"
    by (simp_all add: vectorConocido_def allDigits_def isDigit_def)
  have uno: "intToString 1 = ''1''" by code_simp
  from generate_returns [OF validateParams_vector fe _ _ s assms(2)]
  obtain dv where k: "generate dp ?p r = Inr (''15012024'' @ tipoComprobante ?p @ ruc ?p
      @ intToString (ambiente ?p) @ establecimiento ?p @ puntoEmision ?p
      @ padStart 9 (secuencial ?p) @ generateCodigoNumerico r @ intToString (tipoEmision ?p) @ dv)"
    by (auto simp: allDigits_def isDigit_def)
  then have "take 24 (''15012024'' @ tipoComprobante ?p @ ruc ?p
      @ intToString (ambiente ?p) @ establecimiento ?p @ puntoEmision ?p
      @ padStart 9 (secuencial ?p) @ generateCodigoNumerico r @ intToString (tipoEmision ?p) @ dv)
      = ''150120240117921467390011''"
    by (simp add: vectorConocido_def uno)
  with k generate_Inr [OF k] show ?thesis by simp
qed

text \<open>The hypotheses hold for the string form of the date and the random draw 2345678.\<close>

theorem known_vector_witness:
  "(FechaString ''15/01/2024'' = FechaString ''15/01/2024''
      \<or> FechaString ''15/01/2024'' = FechaDate (newDate (Some 2024) (Some 0) (Some 15)))
   \<and> (2345678::nat) < 90000000
   \<and> generate (\<lambda>_. None) (vectorConocido (FechaString ''15/01/2024'')) 2345678 = Inr ''1501202401179214673900110010010000000011234567810''
   \<and> take 24 ''1501202401179214673900110010010000000011234567810'' = ''150120240117921467390011''"
proof -
  have f: "FechaString ''15/01/2024'' = FechaString ''15/01/2024''
      \<or> FechaString ''15/01/2024'' = FechaDate (newDate (Some 2024) (Some 0) (Some 15))"
    by simp
  have r: "(2345678::nat) < 90000000" by simp
  have g: "generate (\<lambda>_. None) (vectorConocido (FechaString ''15/01/2024'')) 2345678 = Inr ''1501202401179214673900110010010000000011234567810''"
    by (rule generate_vector_2345678)
  from known_vector [OF f r, of "\<lambda>_. None"] g
  have "take 24 ''1501202401179214673900110010010000000011234567810'' = ''150120240117921467390011''"
    by auto
  with f r g show ?thesis by blast
qed

section \<open>Properties of the canonical form\<close>

lemma replaceAll_Nil: "replaceAll c r [] = []"
  by (simp add: replaceAll_def)

lemma replaceAll_Cons: "replaceAll c r (x # s) = (if x = c then r else [x]) @ replaceAll c r s"
  by (simp add: replaceAll_def)

lemma replaceAll_append: "replaceAll c r (a @ b) = replaceAll c r a @ replaceAll c r b"
  by (simp add: replaceAll_def)

lemma escapeAttributeValue_Cons:
  "escapeAttributeValue (x # v) = referenciaAtributo x @ escapeAttributeValue v"
  by (simp add: escapeAttributeValue_def referenciaAtributo_def replaceAll_Cons replaceAll_append
      replaceAll_Nil)

lemma escapeAttributeValue_chars: "escapeAttributeValue v = concat (map referenciaAtributo v)"
proof (induction v)
  case Nil
  show ?case by (simp add: escapeAttributeValue_def replaceAll_Nil)
next
  case (Cons x v)
  then show ?case by (simp add: escapeAttributeValue_Cons)
qed

lemma canonicalizeText_Cons:
  "canonicalizeText (x # v) = referenciaTexto x @ canonicalizeText v"
  by (simp add: canonicalizeText_def referenciaTexto_def replaceAll_Cons replaceAll_append
      replaceAll_Nil)

lemma canonicalizeText_chars: "canonicalizeText v = concat (map referenciaTexto v)"
proof (induction v)
  case Nil
  show ?case by (simp add: canonicalizeText_def replaceAll_Nil)
next
  case (Cons x v)
  then show ?case by (simp add: canonicalizeText_Cons)
qed

lemma attributeText_chars:
  "attributeText = (\<lambda>(n, v). '' '' @ n @ ''=\"'' @ concat (map referenciaAtributo v) @ ''\"'')"
  by (rule ext) (simp add: attributeText_def escapeAttributeValue_chars split: prod.split)

lemma referenciaAtributo_otros:
  "(referenciaAtributo c = [c])
     = (c \<notin> set [CHR ''&'', CHR ''<'', CHR 0x22, CHR 0x09, CHR 0x0A, CHR 0x0D])"
  by (simp add: referenciaAtributo_def)

lemma referenciaTexto_otros:
  "(referenciaTexto c = [c]) = (c \<notin> set [CHR ''&'', CHR ''<'', CHR ''>'', CHR 0x0D])"
  by (simp add: referenciaTexto_def)

text \<open>
  Claim C5, as amended. \<open>canonicalize\<close> is \<open>canonicalizeNode\<close> on the root element. In
  the start tag that \<open>canonicalizeNode\<close> writes for an element, at every depth, the value
  of every namespace declaration and of every other attribute is written with each of the
  six characters \<open>&\<close>, \<open><\<close>, the double quote, tab, newline and carriage return replaced by
  its reference, and with every other character, the greater-than sign among them, as it
  is. A text node is written with \<open>&\<close>, \<open><\<close>, \<open>>\<close> and carriage return replaced, and with
  every other character as it is. No other kind of node is written.
\<close>

theorem escaping_per_context:
  "canonicalize lc documentElement = canonicalizeNode lc [] documentElement
   \<and> canonicalizeNode lc inherited (Element tagName attrs childNodes) =
       ''<'' @ tagName
       @ concat (map (\<lambda>(n, v). '' '' @ n @ ''=\"'' @ concat (map referenciaAtributo v) @ ''\"'')
                   (getSortedNamespaces lc (extractNamespaces attrs)))
       @ concat (map (\<lambda>(n, v). '' '' @ n @ ''=\"'' @ concat (map referenciaAtributo v) @ ''\"'')
                   (filter (\<lambda>(name, v). \<not> startsWith name ''xmlns'')
                      (getSortedAttributes lc attrs)))
       @ ''>''
       @ concat (map (canonicalizeNode lc (spread inherited (extractNamespaces attrs))) childNodes)
       @ ''</'' @ tagName @ ''>''
   \<and> canonicalizeNode lc inherited (Text t) = concat (map referenciaTexto t)
   \<and> canonicalizeNode lc inherited OtherNode = []
   \<and> map referenciaAtributo [CHR ''&'', CHR ''<'', CHR ''>'', CHR 0x22, CHR 0x09, CHR 0x0A, CHR 0x0D]
       = [''&amp;'', ''&lt;'', ''>'', ''&quot;'', ''&#x9;'', ''&#xA;'', ''&#xD;'']
   \<and> map referenciaTexto [CHR ''&'', CHR ''<'', CHR ''>'', CHR 0x22, CHR 0x09, CHR 0x0A, CHR 0x0D]
       = [''&amp;'', ''&lt;'', ''&gt;'', [CHR 0x22], [CHR 0x09], [CHR 0x0A], ''&#xD;'']
   \<and> (referenciaAtributo c = [c])
       = (c \<notin> set [CHR ''&'', CHR ''<'', CHR 0x22, CHR 0x09, CHR 0x0A, CHR 0x0D])
   \<and> (referenciaTexto c = [c]) = (c \<notin> set [CHR ''&'', CHR ''<'', CHR ''>'', CHR 0x0D])"
proof -
  have "canonicalizeNode lc inherited (Element tagName attrs childNodes) =
       ''<'' @ tagName
       @ concat (map (\<lambda>(n, v). '' '' @ n @ ''=\"'' @ concat (map referenciaAtributo v) @ ''\"'')
                   (getSortedNamespaces lc (extractNamespaces attrs)))
       @ concat (map (\<lambda>(n, v). '' '' @ n @ ''=\"'' @ concat (map referenciaAtributo v) @ ''\"'')
                   (filter (\<lambda>(name, v). \<not> startsWith name ''xmlns'')
                      (getSortedAttributes lc attrs)))
       @ ''>''
       @ concat (map (canonicalizeNode lc (spread inherited (extractNamespaces attrs))) childNodes)
       @ ''</'' @ tagName @ ''>''"
    by (simp add: Let_def attributeText_chars)
  moreover have "canonicalizeNode lc inherited (Text t) = concat (map referenciaTexto t)"
    by (simp add: canonicalizeText_chars)
  moreover have "map referenciaAtributo [CHR ''&'', CHR ''<'', CHR ''>'', CHR 0x22, CHR 0x09, CHR 0x0A, CHR 0x0D]
       = [''&amp;'', ''&lt;'', ''>'', ''&quot;'', ''&#x9;'', ''&#xA;'', ''&#xD;'']"
    by (simp add: referenciaAtributo_def)
  moreover have "map referenciaTexto [CHR ''&'', CHR ''<'', CHR ''>'', CHR 0x22, CHR 0x09, CHR 0x0A, CHR 0x0D]
       = [''&amp;'', ''&lt;'', ''&gt;'', [CHR 0x22], [CHR 0x09], [CHR 0x0A], ''&#xD;'']"
    by (simp add: referenciaTexto_def)
  ultimately show ?thesis
    by (simp only: canonicalize_def referenciaAtributo_otros referenciaTexto_otros
          canonicalizeNode.simps(3) simp_thms)
qed

text \<open>
  Claim C5 as stated fails: a greater-than sign in an attribute value is written as it
  is, while the same character in a text node becomes \<open>&gt;\<close>.
\<close>

theorem escaping_per_context_counterexample:
  "canonicalize compararCodigos (Element ''a'' [(''b'', ''>'')] [Text ''>''])
     = ''<a b=\">\">&gt;</a>''"
  by code_simp

lemma mset_insertBy: "mset (insertBy cmp x ys) = add_mset x (mset ys)"
  by (induction ys) simp_all

lemma mset_sortBy: "mset (sortBy cmp xs) = mset xs"
  by (induction xs) (simp_all add: sortBy_def mset_insertBy)

lemma set_sortBy: "set (sortBy cmp xs) = set xs"
  using mset_sortBy [of cmp xs] by (metis set_mset_mset)

lemma set_insertBy: "set (insertBy cmp x ys) = insert x (set ys)"
  using mset_insertBy [of cmp x ys] by (metis set_mset_mset set_mset_add_mset_insert)

lemma sorted_insertBy:
  assumes o: "ordenEn S cmp" and x: "x \<in> S" and ys: "set ys \<subseteq> S"
    and s: "sorted_wrt (\<lambda>a b. cmp a b \<le> 0) ys"
  shows "sorted_wrt (\<lambda>a b. cmp a b \<le> 0) (insertBy cmp x ys)"
  using ys s
proof (induction ys)
  case Nil
  then show ?case by simp
next
  case (Cons y ys)
  from Cons.prems have y: "y \<in> S" and sub: "set ys \<subseteq> S"
    and yle: "\<forall>z\<in>set ys. cmp y z \<le> 0" and sys: "sorted_wrt (\<lambda>a b. cmp a b \<le> 0) ys"
    by simp_all
  show ?case
  proof (cases "cmp x y \<le> 0")
    case True
    have "\<forall>z\<in>set ys. cmp x z \<le> 0"
    proof
      fix z assume z: "z \<in> set ys"
      then have "z \<in> S" "cmp y z \<le> 0" using sub yle by auto
      with o x y True show "cmp x z \<le> 0" unfolding ordenEn_def by blast
    qed
    with True Cons.prems show ?thesis by simp
  next
    case False
    then have yx: "cmp y x \<le> 0" using o x y unfolding ordenEn_def by blast
    from Cons.IH [OF sub sys] yx yle False show ?thesis
      by (simp add: set_insertBy)
  qed
qed

lemma sorted_sortBy:
  assumes "ordenEn S cmp" and "set xs \<subseteq> S"
  shows "sorted_wrt (\<lambda>a b. cmp a b \<le> 0) (sortBy cmp xs)"
  using assms(2)
proof (induction xs)
  case Nil
  then show ?case by (simp add: sortBy_def)
next
  case (Cons x xs)
  then have "sorted_wrt (\<lambda>a b. cmp a b \<le> 0) (sortBy cmp xs)" by simp
  from sorted_insertBy [OF assms(1) _ _ this, of x] Cons.prems
  show ?case by (simp add: sortBy_def set_sortBy [unfolded sortBy_def])
qed

lemma sorted_unique:
  assumes o: "ordenEn S cmp"
  shows "set xs \<subseteq> S \<Longrightarrow> mset xs = mset ys \<Longrightarrow>
         sorted_wrt (\<lambda>a b. cmp a b \<le> 0) xs \<Longrightarrow> sorted_wrt (\<lambda>a b. cmp a b \<le> 0) ys \<Longrightarrow> xs = ys"
proof (induction xs arbitrary: ys)
  case Nil
  then show ?case by simp
next
  case (Cons x xs)
  then obtain y ys' where ys: "ys = y # ys'" by (cases ys) auto
  have sets: "set (x # xs) = set ys" using Cons.prems(2) by (metis set_mset_mset)
  have xS: "x \<in> S" and yS: "y \<in> S" using Cons.prems(1) sets ys by auto
  have "x = y"
  proof (rule ccontr)
    assume ne: "x \<noteq> y"
    then have "x \<in> set ys'" "y \<in> set xs" using sets ys by auto
    then have "cmp y x \<le> 0" "cmp x y \<le> 0" using Cons.prems(3,4) ys by auto
    with o xS yS ne show False unfolding ordenEn_def by blast
  qed
  moreover have "xs = ys'"
    using Cons.IH [of ys'] Cons.prems ys \<open>x = y\<close> by simp
  ultimately show ?case using ys by simp
qed

lemma sortBy_mset_cong:
  assumes "ordenEn S cmp" and "set xs \<subseteq> S" and "mset xs = mset ys"
  shows "sortBy cmp xs = sortBy cmp ys"
proof -
  have ys: "set ys \<subseteq> S" using assms(2,3) by (metis set_mset_mset)
  show ?thesis
    by (rule sorted_unique [OF assms(1)])
       (simp_all add: set_sortBy mset_sortBy assms sorted_sortBy [OF assms(1)] ys)
qed

lemma indexOf_None: "indexOf c s = None \<longleftrightarrow> c \<notin> set s"
  by (induction s) auto

lemma indexOf_Some:
  "indexOf c s = Some i \<Longrightarrow> i < length s \<and> s ! i = c \<and> c \<notin> set (take i s)
     \<and> s = take i s @ c # drop (Suc i) s"
proof (induction s arbitrary: i)
  case Nil
  then show ?case by simp
next
  case (Cons x s)
  show ?case
  proof (cases "x = c")
    case True
    with Cons.prems show ?thesis by simp
  next
    case False
    with Cons.prems obtain j where j: "indexOf c s = Some j" "i = Suc j" by auto
    from Cons.IH [OF j(1)] False j(2) show ?thesis by simp
  qed
qed

lemma splitQName_inj:
  assumes "\<not> startsWith a '':''" "\<not> startsWith b '':''" "splitQName a = splitQName b"
  shows "a = b"
proof (cases "indexOf (CHR '':'') a")
  case None
  note na = this
  show ?thesis
  proof (cases "indexOf (CHR '':'') b")
    case None
    with na assms(3) show ?thesis by (simp add: splitQName_def)
  next
    case (Some j)
    from indexOf_Some [OF Some] assms(2) have "take j b \<noteq> []"
      by (cases j) (auto simp: startsWith_def, (cases b; simp)+)
    with na Some assms(3) show ?thesis by (simp add: splitQName_def)
  qed
next
  case (Some i)
  note sa = this
  from indexOf_Some [OF Some] assms(1) have ne: "take i a \<noteq> []"
    by (cases i) (auto simp: startsWith_def, (cases a; simp)+)
  show ?thesis
  proof (cases "indexOf (CHR '':'') b")
    case None
    with sa ne assms(3) show ?thesis by (simp add: splitQName_def)
  next
    case (Some j)
    from sa Some assms(3) have e: "take i a = take j b" "drop (Suc i) a = drop (Suc j) b"
      by (simp_all add: splitQName_def)
    from indexOf_Some [OF sa] have "a = take i a @ CHR '':'' # drop (Suc i) a" by simp
    moreover from indexOf_Some [OF Some] have "b = take j b @ CHR '':'' # drop (Suc j) b" by simp
    ultimately show ?thesis using e by metis
  qed
qed

lemma attributeCompare_le:
  "attributeCompare lc a b \<le> 0 \<longleftrightarrow>
     (fst (splitQName a) \<noteq> fst (splitQName b) \<longrightarrow>
        fst (splitQName a) = []
        \<or> (fst (splitQName b) \<noteq> [] \<and> lc (fst (splitQName a)) (fst (splitQName b)) \<le> 0))
     \<and> (fst (splitQName a) = fst (splitQName b) \<longrightarrow>
        lc (snd (splitQName a)) (snd (splitQName b)) \<le> 0)"
  by (simp add: attributeCompare_def Let_def)

lemma ordenTotal_D:
  assumes "ordenTotal lc"
  shows "lc a b \<le> 0 \<or> lc b a \<le> 0"
    and "lc a b \<le> 0 \<Longrightarrow> lc b c \<le> 0 \<Longrightarrow> lc a c \<le> 0"
    and "lc a b \<le> 0 \<Longrightarrow> lc b a \<le> 0 \<Longrightarrow> a = b"
  using assms unfolding ordenTotal_def ordenEn_def by blast+

lemma attributeCompare_total:
  assumes "ordenTotal lc"
  shows "attributeCompare lc a b \<le> 0 \<or> attributeCompare lc b a \<le> 0"
  unfolding attributeCompare_le using ordenTotal_D(1) [OF assms] by (auto split: if_splits)

lemma attributeCompare_trans:
  assumes o: "ordenTotal lc"
    and ab: "attributeCompare lc a b \<le> 0" and bc: "attributeCompare lc b c \<le> 0"
  shows "attributeCompare lc a c \<le> 0"
proof -
  obtain pa la pb lb pc lc' where s: "splitQName a = (pa, la)" "splitQName b = (pb, lb)"
      "splitQName c = (pc, lc')"
    by (metis surj_pair)
  note t = ordenTotal_D(2) [OF o] and an = ordenTotal_D(3) [OF o]
  from ab have 1: "(pa \<noteq> pb \<longrightarrow> pa = [] \<or> (pb \<noteq> [] \<and> lc pa pb \<le> 0)) \<and> (pa = pb \<longrightarrow> lc la lb \<le> 0)"
    by (simp add: attributeCompare_le s)
  from bc have 2: "(pb \<noteq> pc \<longrightarrow> pb = [] \<or> (pc \<noteq> [] \<and> lc pb pc \<le> 0)) \<and> (pb = pc \<longrightarrow> lc lb lc' \<le> 0)"
    by (simp add: attributeCompare_le s)
  have "(pa \<noteq> pc \<longrightarrow> pa = [] \<or> (pc \<noteq> [] \<and> lc pa pc \<le> 0)) \<and> (pa = pc \<longrightarrow> lc la lc' \<le> 0)"
  proof (cases "pa = pb")
    case True
    show ?thesis
    proof (cases "pb = pc")
      case True
      with \<open>pa = pb\<close> 1 2 t show ?thesis by auto
    next
      case False
      with True 1 2 show ?thesis by auto
    qed
  next
    case False
    note nab = this
    show ?thesis
    proof (cases "pb = pc")
      case True
      with nab 1 2 show ?thesis by auto
    next
      case False
      show ?thesis
      proof (cases "pa = pc")
        case True
        from nab False 1 2 True have "pa = [] \<or> (lc pa pb \<le> 0 \<and> lc pb pa \<le> 0)"
          by auto
        then have "pa = []" using an nab by blast
        with True nab False 1 2 show ?thesis by auto
      next
        case False
        with nab \<open>pb \<noteq> pc\<close> 1 2 t show ?thesis by auto
      qed
    qed
  qed
  then show ?thesis by (simp add: attributeCompare_le s)
qed

lemma attributeCompare_antisym:
  assumes o: "ordenTotal lc"
    and a: "\<not> startsWith a '':''" and b: "\<not> startsWith b '':''"
    and ab: "attributeCompare lc a b \<le> 0" and ba: "attributeCompare lc b a \<le> 0"
  shows "a = b"
proof -
  note an = ordenTotal_D(3) [OF o]
  have p: "fst (splitQName a) = fst (splitQName b)"
  proof (rule ccontr)
    assume ne: "fst (splitQName a) \<noteq> fst (splitQName b)"
    with ab ba have "lc (fst (splitQName a)) (fst (splitQName b)) \<le> 0"
        "lc (fst (splitQName b)) (fst (splitQName a)) \<le> 0"
      by (auto simp: attributeCompare_le split: if_splits)
    with an ne show False by blast
  qed
  with ab ba have "snd (splitQName a) = snd (splitQName b)"
    using an by (simp add: attributeCompare_le)
  with p have "splitQName a = splitQName b" by (simp add: prod_eq_iff)
  from splitQName_inj [OF a b this] show ?thesis .
qed

lemma key_unique:
  "distinct (map fst xs) \<Longrightarrow> a \<in> set xs \<Longrightarrow> b \<in> set xs \<Longrightarrow> fst a = fst b \<Longrightarrow> a = b"
  by (metis distinct_map inj_onD)

lemma orden_atributos:
  assumes o: "ordenTotal lc" and d: "distinct (map fst xs)"
    and r: "\<forall>a\<in>set xs. \<not> startsWith (fst a) '':''"
  shows "ordenEn (set xs) (\<lambda>a b. attributeCompare lc (fst a) (fst b))"
  unfolding ordenEn_def
proof (intro conjI ballI impI)
  fix a b assume "a \<in> set xs" "b \<in> set xs"
  show "attributeCompare lc (fst a) (fst b) \<le> 0 \<or> attributeCompare lc (fst b) (fst a) \<le> 0"
    by (rule attributeCompare_total [OF o])
next
  fix a b c
  assume "attributeCompare lc (fst a) (fst b) \<le> 0" "attributeCompare lc (fst b) (fst c) \<le> 0"
  then show "attributeCompare lc (fst a) (fst c) \<le> 0" by (rule attributeCompare_trans [OF o])
next
  fix a b assume a: "a \<in> set xs" and b: "b \<in> set xs"
    and "attributeCompare lc (fst a) (fst b) \<le> 0" "attributeCompare lc (fst b) (fst a) \<le> 0"
  with r have "fst a = fst b" by (intro attributeCompare_antisym [OF o]) auto
  with d a b show "a = b" by (rule key_unique)
qed

lemma orden_nombres:
  assumes o: "ordenTotal lc" and d: "distinct (map fst xs)"
  shows "ordenEn (set xs) (\<lambda>a b. lc (fst a) (fst b))"
  unfolding ordenEn_def
proof (intro conjI ballI impI)
  fix a b
  show "lc (fst a) (fst b) \<le> 0 \<or> lc (fst b) (fst a) \<le> 0" by (rule ordenTotal_D(1) [OF o])
next
  fix a b c
  assume "lc (fst a) (fst b) \<le> 0" "lc (fst b) (fst c) \<le> 0"
  then show "lc (fst a) (fst c) \<le> 0" by (rule ordenTotal_D(2) [OF o])
next
  fix a b assume a: "a \<in> set xs" and b: "b \<in> set xs"
    and le: "lc (fst a) (fst b) \<le> 0" "lc (fst b) (fst a) \<le> 0"
  from le have "fst a = fst b" by (rule ordenTotal_D(3) [OF o])
  with d a b show "a = b" by (rule key_unique)
qed

lemma objSet_new: "k \<notin> fst ` set obj \<Longrightarrow> objSet k v obj = obj @ [(k, v)]"
  by (induction obj) auto

lemma declaracion_prefijo:
  "esXmlns a \<Longrightarrow> nombreRegular (fst a) \<Longrightarrow> declaracion (prefijo a) = a"
proof -
  assume x: "esXmlns a" and r: "nombreRegular (fst a)"
  then consider "fst a = ''xmlns''" | "fst a \<noteq> ''xmlns''" "startsWith (fst a) ''xmlns:''" "6 < length (fst a)"
    unfolding esXmlns_def nombreRegular_def by auto
  then show ?thesis
  proof cases
    case 1
    then show ?thesis by (simp add: declaracion_def prefijo_def prod_eq_iff)
  next
    case 2
    have "take (length ''xmlns:'') (fst a) = ''xmlns:''"
      using 2(2) by (simp only: startsWith_def)
    moreover have "length ''xmlns:'' = 6" by simp
    ultimately have "take 6 (fst a) = ''xmlns:''" by metis
    moreover have "drop 6 (fst a) \<noteq> []" using 2(3) by simp
    moreover have "take 6 (fst a) @ drop 6 (fst a) = fst a" by simp
    ultimately have "''xmlns:'' @ drop 6 (fst a) = fst a" by metis
    with 2(1) \<open>drop 6 (fst a) \<noteq> []\<close> show ?thesis
      by (simp add: declaracion_def prefijo_def prod_eq_iff)
  qed
qed

lemma extractNamespaces_foldl:
  "extractNamespaces attrs =
     foldl (\<lambda>ns a. if esXmlns a then objSet (fst (prefijo a)) (snd (prefijo a)) ns else ns) [] attrs"
proof -
  have "(\<lambda>namespaces (name, v).
              if startsWith name ''xmlns''
              then objSet (if name = ''xmlns'' then [] else drop 6 name) v namespaces
              else namespaces)
      = (\<lambda>ns a. if esXmlns a then objSet (fst (prefijo a)) (snd (prefijo a)) ns else ns)"
    by (auto simp: fun_eq_iff esXmlns_def prefijo_def)
  then show ?thesis by (simp add: extractNamespaces_def)
qed

lemma foldl_objSet:
  "distinct (map fst acc @ map (\<lambda>x. fst (prefijo x)) (filter esXmlns attrs)) \<Longrightarrow>
   foldl (\<lambda>ns a. if esXmlns a then objSet (fst (prefijo a)) (snd (prefijo a)) ns else ns) acc attrs
     = acc @ map prefijo (filter esXmlns attrs)"
proof (induction attrs arbitrary: acc)
  case Nil
  then show ?case by simp
next
  case (Cons a attrs)
  show ?case
  proof (cases "esXmlns a")
    case False
    with Cons show ?thesis by simp
  next
    case True
    with Cons.prems have new: "fst (prefijo a) \<notin> fst ` set acc"
      and d: "distinct (map fst (acc @ [prefijo a]) @ map (\<lambda>x. fst (prefijo x)) (filter esXmlns attrs))"
      by auto
    have "objSet (fst (prefijo a)) (snd (prefijo a)) acc = acc @ [prefijo a]"
      using objSet_new [OF new] by simp
    with Cons.IH [OF d] True show ?thesis by simp
  qed
qed

lemma prefijo_distinct:
  assumes "distinct (map fst attrs)" and "list_all nombreRegular (map fst attrs)"
  shows "distinct (map (\<lambda>x. fst (prefijo x)) (filter esXmlns attrs))"
proof -
  have inj: "inj_on (\<lambda>x. fst (prefijo x)) (set (filter esXmlns attrs))"
  proof (rule inj_onI)
    fix a b assume a: "a \<in> set (filter esXmlns attrs)" and b: "b \<in> set (filter esXmlns attrs)"
      and e: "fst (prefijo a) = fst (prefijo b)"
    from a b assms(2) have ra: "esXmlns a" "nombreRegular (fst a)" and rb: "esXmlns b" "nombreRegular (fst b)"
      by (auto simp: list_all_iff)
    have "fst (declaracion (prefijo a)) = fst (declaracion (prefijo b))"
      using e by (simp add: declaracion_def)
    then have "fst a = fst b"
      by (simp add: declaracion_prefijo ra rb)
    with assms(1) a b show "a = b" by (auto intro: key_unique)
  qed
  have "distinct (filter esXmlns attrs)"
    using assms(1) by (simp add: distinct_map)
  with inj show ?thesis by (simp add: distinct_map)
qed

lemma extractNamespaces_regular:
  assumes "distinct (map fst attrs)" and "list_all nombreRegular (map fst attrs)"
  shows "extractNamespaces attrs = map prefijo (filter esXmlns attrs)"
  using foldl_objSet [of "[]" attrs] prefijo_distinct [OF assms]
  by (simp add: extractNamespaces_foldl)

lemma mset_entries: "mset (entries obj) = mset obj"
  by (simp add: entries_def)

lemma declaraciones:
  assumes "distinct (map fst attrs)" and "list_all nombreRegular (map fst attrs)"
  shows "mset (map declaracion (entries (extractNamespaces attrs))) = mset (filter esXmlns attrs)"
proof -
  have "mset (map declaracion (entries (extractNamespaces attrs)))
      = image_mset declaracion (mset (map prefijo (filter esXmlns attrs)))"
    by (simp add: mset_entries extractNamespaces_regular [OF assms])
  also have "\<dots> = mset (map (declaracion \<circ> prefijo) (filter esXmlns attrs))"
    by (simp add: multiset.map_comp)
  also have "map (declaracion \<circ> prefijo) (filter esXmlns attrs) = map id (filter esXmlns attrs)"
    using assms(2) by (intro map_cong refl) (auto simp: list_all_iff declaracion_prefijo)
  finally show ?thesis by simp
qed

lemma getSortedNamespaces_cong:
  assumes o: "ordenTotal lc"
    and d: "distinct (map fst attrs)" and r: "list_all nombreRegular (map fst attrs)"
    and m: "mset attrs = mset attrs'"
  shows "getSortedNamespaces lc (extractNamespaces attrs)
       = getSortedNamespaces lc (extractNamespaces attrs')"
proof -
  have d': "distinct (map fst attrs')"
    using d m by (metis distinct_map mset_eq_setD mset_eq_imp_distinct_iff)
  have r': "list_all nombreRegular (map fst attrs')"
    using r m by (metis list_all_iff mset_eq_setD set_map)
  let ?L = "map declaracion (entries (extractNamespaces attrs))"
  let ?L' = "map declaracion (entries (extractNamespaces attrs'))"
  have ms: "mset ?L = mset ?L'"
    using m by (simp only: declaraciones [OF d r] declaraciones [OF d' r'] mset_filter)
  have "set ?L \<subseteq> set attrs"
    using declaraciones [OF d r] by (metis mset_eq_setD set_filter mem_Collect_eq subsetI)
  moreover have "ordenEn (set attrs) (\<lambda>a b. lc (fst a) (fst b))"
    by (rule orden_nombres [OF o d])
  ultimately have "sortBy (\<lambda>a b. lc (fst a) (fst b)) ?L = sortBy (\<lambda>a b. lc (fst a) (fst b)) ?L'"
    using ms by (intro sortBy_mset_cong [where S = "set attrs"])
  moreover have "(\<lambda>(prefix, uri). (if prefix = [] then ''xmlns'' else ''xmlns:'' @ prefix, uri))
      = declaracion"
    by (auto simp: fun_eq_iff declaracion_def)
  then have "\<And>ns. getSortedNamespaces lc ns
      = sortBy (\<lambda>a b. lc (fst a) (fst b)) (map declaracion (entries ns))"
    by (simp add: getSortedNamespaces_def)
  ultimately show ?thesis by simp
qed

lemma getSortedAttributes_cong:
  assumes o: "ordenTotal lc"
    and d: "distinct (map fst attrs)" and r: "list_all nombreRegular (map fst attrs)"
    and m: "mset attrs = mset attrs'"
  shows "getSortedAttributes lc attrs = getSortedAttributes lc attrs'"
proof -
  let ?P = "\<lambda>(name, v). \<not> startsWith name ''xmlns''"
  let ?F = "filter ?P attrs"
  have df: "distinct (map fst ?F)" using d by (simp add: distinct_map_filter)
  have rf: "\<forall>a\<in>set ?F. \<not> startsWith (fst a) '':''"
    using r by (auto simp: list_all_iff nombreRegular_def split: if_splits)
  have "mset ?F = mset (filter ?P attrs')" using m by (simp only: mset_filter)
  with orden_atributos [OF o df rf] show ?thesis
    unfolding getSortedAttributes_def by (intro sortBy_mset_cong [where S = "set ?F"]) simp_all
qed

lemma mismoArbol_regular_canonicalize:
  assumes o: "ordenTotal lc"
  shows "mismoArbol t1 t2 \<Longrightarrow> arbolRegular t1 \<Longrightarrow>
         canonicalizeNode lc inh1 t1 = canonicalizeNode lc inh2 t2"
proof (induction t1 arbitrary: t2 inh1 inh2)
  case (Element tag attrs cs)
  from Element.prems(1) obtain attrs' cs' where t2: "t2 = Element tag attrs' cs'"
    and m: "mset attrs = mset attrs'" and ch: "list_all2 mismoArbol cs cs'"
    by (cases t2) auto
  from Element.prems(2) have d: "distinct (map fst attrs)"
    and r: "list_all nombreRegular (map fst attrs)" and rc: "list_all arbolRegular cs"
    by simp_all
  have kids: "map (canonicalizeNode lc i1) cs = map (canonicalizeNode lc i2) cs'" for i1 i2
    using ch rc Element.IH
    by (induction cs cs' rule: list_all2_induct) auto
  show ?case
    unfolding t2
    by (simp add: Let_def getSortedNamespaces_cong [OF o d r m]
        getSortedAttributes_cong [OF o d r m] kids [of _ "spread inh2 (extractNamespaces attrs')"])
next
  case (Text v)
  then show ?case by simp
next
  case OtherNode
  then show ?case by simp
qed

lemma compararCodigos_total: "compararCodigos a b \<le> 0 \<or> compararCodigos b a \<le> 0"
  by (induction a b rule: compararCodigos.induct) auto

lemma compararCodigos_antisym:
  "compararCodigos a b \<le> 0 \<Longrightarrow> compararCodigos b a \<le> 0 \<Longrightarrow> a = b"
proof (induction a b rule: compararCodigos.induct)
  case (4 x xs y ys)
  from "4.prems" have e: "(of_char x :: nat) = of_char y"
    by (auto split: if_splits)
  then have "x = y" by simp
  moreover from "4.prems" e have "compararCodigos xs ys \<le> 0" "compararCodigos ys xs \<le> 0"
    by simp_all
  ultimately show ?case using "4.IH" e by simp
qed simp_all

lemma compararCodigos_trans:
  "compararCodigos a b \<le> 0 \<Longrightarrow> compararCodigos b c \<le> 0 \<Longrightarrow> compararCodigos a c \<le> 0"
proof (induction a b arbitrary: c rule: compararCodigos.induct)
  case 1
  then show ?case by simp
next
  case (2 y ys)
  then show ?case by (cases c) simp_all
next
  case (3 x xs)
  then show ?case by simp
next
  case (4 x xs y ys)
  show ?case
  proof (cases c)
    case Nil
    with "4.prems" show ?thesis by simp
  next
    case (Cons z zs)
    show ?thesis
    proof (cases "(of_char x :: nat) < of_char y")
      case True
      with "4.prems" Cons show ?thesis by (auto split: if_splits)
    next
      case False
      with "4.prems"(1) have e: "(of_char x :: nat) = of_char y" and r: "compararCodigos xs ys \<le> 0"
        by (auto split: if_splits)
      show ?thesis
      proof (cases "(of_char y :: nat) < of_char z")
        case True
        with e Cons show ?thesis by simp
      next
        case False
        with "4.prems"(2) Cons have e': "(of_char y :: nat) = of_char z"
          and r': "compararCodigos ys zs \<le> 0"
          by (auto split: if_splits)
        from "4.IH" [OF _ _ r r'] e have "compararCodigos xs zs \<le> 0" by simp
        with e e' Cons show ?thesis by simp
      qed
    qed
  qed
qed

lemma ordenTotal_compararCodigos: "ordenTotal compararCodigos"
  unfolding ordenTotal_def ordenEn_def
  using compararCodigos_total compararCodigos_trans compararCodigos_antisym by blast

text \<open>
  Where the canonical form does not depend on the order of the attributes: under a
  collation that is a total order, two regular trees that are equal except for the order in
  which the attributes of their elements are given have the same canonical form.
\<close>

lemma canonicalize_regular:
  assumes "ordenTotal lc" and "mismoArbol t1 t2" and "arbolRegular t1"
  shows "canonicalize lc t1 = canonicalize lc t2"
  unfolding canonicalize_def
  using assms by (rule mismoArbol_regular_canonicalize)

text \<open>
  Claim C4 asks for the same output on two trees that differ only in the order of their
  attributes. The code departs from it on attribute names that start with \<open>xmlns\<close> without
  being namespace declarations. \<open>extractNamespaces\<close> tests \<open>startsWith('xmlns')\<close> and then
  cuts six characters, the length of \<open>xmlns:\<close>: \<open>xmlns\<close> and \<open>xmlns1\<close> both become the key
  of the default namespace, the one given last wins, and the output depends on the order of
  the two attributes, whatever the collation; for the same reason the single attribute
  \<open>xmlnsfoo\<close> is written as \<open>xmlns:oo\<close>.
\<close>

theorem canonicalize_xmlns_names:
  "mismoArbol (Element ''a'' [(''xmlns'', ''u''), (''xmlns1'', ''v'')] [])
              (Element ''a'' [(''xmlns1'', ''v''), (''xmlns'', ''u'')] [])
   \<and> canonicalize lc (Element ''a'' [(''xmlns'', ''u''), (''xmlns1'', ''v'')] [])
       = ''<a xmlns=\"v\"></a>''
   \<and> canonicalize lc (Element ''a'' [(''xmlns1'', ''v''), (''xmlns'', ''u'')] [])
       = ''<a xmlns=\"u\"></a>''
   \<and> canonicalize lc (Element ''a'' [(''xmlnsfoo'', ''v'')] []) = ''<a xmlns:oo=\"v\"></a>''"
proof -
  have m: "mismoArbol (Element ''a'' [(''xmlns'', ''u''), (''xmlns1'', ''v'')] [])
              (Element ''a'' [(''xmlns1'', ''v''), (''xmlns'', ''u'')] [])" by simp
  have e1: "extractNamespaces [(''xmlns'', ''u''), (''xmlns1'', ''v'')] = [([], ''v'')]"
    by code_simp
  have e2: "extractNamespaces [(''xmlns1'', ''v''), (''xmlns'', ''u'')] = [([], ''u'')]"
    by code_simp
  have e3: "extractNamespaces [(''xmlnsfoo'', ''v'')] = [(''oo'', ''v'')]"
    by code_simp
  have en: "entries [(k, v)] = [(k, v)]" for k v :: string
    by (simp add: entries_def)
  have sw: "startsWith ''xmlns'' ''xmlns''" "startsWith ''xmlns1'' ''xmlns''"
    "startsWith ''xmlnsfoo'' ''xmlns''"
    by code_simp+
  have esc: "escapeAttributeValue ''u'' = ''u''" "escapeAttributeValue ''v'' = ''v''"
    by code_simp+
  have c1: "canonicalize lc (Element ''a'' [(''xmlns'', ''u''), (''xmlns1'', ''v'')] [])
       = ''<a xmlns=\"v\"></a>''"
    by (simp add: canonicalize_def Let_def e1 en sw esc getSortedNamespaces_def
        getSortedAttributes_def sortBy_def attributeText_def)
  have c2: "canonicalize lc (Element ''a'' [(''xmlns1'', ''v''), (''xmlns'', ''u'')] [])
       = ''<a xmlns=\"u\"></a>''"
    by (simp add: canonicalize_def Let_def e2 en sw esc getSortedNamespaces_def
        getSortedAttributes_def sortBy_def attributeText_def)
  have c3: "canonicalize lc (Element ''a'' [(''xmlnsfoo'', ''v'')] []) = ''<a xmlns:oo=\"v\"></a>''"
    by (simp add: canonicalize_def Let_def e3 en sw esc getSortedNamespaces_def
        getSortedAttributes_def sortBy_def attributeText_def)
  from m c1 c2 c3 show ?thesis by blast
qed

section \<open>Properties of the signature assemblers\<close>

lemma etiquetas_fuera:
  "CHR ''<'' \<notin> set s \<Longrightarrow> etiquetas None (s @ rest) = etiquetas None rest"
  by (induction s) auto

lemma etiquetas_dentro:
  "CHR ''>'' \<notin> set s \<Longrightarrow> etiquetas (Some r) (s @ rest) = etiquetas (Some (rev s @ r)) rest"
  by (induction s arbitrary: r) auto


lemma etiquetas_cong: "st = st' \<Longrightarrow> etiquetas st s = etiquetas st' s"
  by simp

lemma etiquetas_trozo:
  "etiquetas st ([] @ b) = etiquetas st b"
  "etiquetas None ((c # a) @ b) =
     (if c = CHR ''<'' then etiquetas (Some []) (a @ b) else etiquetas None (a @ b))"
  "etiquetas (Some r) ((c # a) @ b) =
     (if c = CHR ''>'' then rev r # etiquetas None (a @ b) else etiquetas (Some (c # r)) (a @ b))"
  by simp_all

text \<open>
  Claim C6. Every \<open>SignedInfo\<close> built by the assemblers contains exactly three
  \<open>Reference\<close> elements, in the order SignedProperties, KeyInfo, Document; the first carries
  the canonicalization transform, the third the enveloped-signature transform, and the
  second has no \<open>Transforms\<close> element at all. For \<open>XAdESSignatureService\<close> this is read
  off the tree; for the template of \<open>SRIXmlSigner\<close> it is read off the sequence of its
  tags, when the inserted identifiers and digests contain no \<open><\<close> or \<open>>\<close>.
\<close>

theorem signedInfo_references:
  "(let refs = elementsNamed ''ds:Reference''
                 (createSignedInfo envelopedDigest uuid referenceId' signedPropsId'
                    signedPropsDigest' keyInfoId' keyInfoDigest' sha256)
    in map (getAttribute ''URI'') refs = [Some (''#'' @ signedPropsId'), Some (''#'' @ keyInfoId'), Some []]
       \<and> map (getAttribute ''Type'') refs
           = [Some ''http://uri.etsi.org/01903#SignedProperties'', None, None]
       \<and> map transformAlgorithms refs
           = [[Some CANONICALIZATION_METHOD], [],
              [Some ''http://www.w3.org/2000/09/xmldsig#enveloped-signature'']]
       \<and> map (elementsNamed ''ds:Transforms'') refs
           = [[Element ''ds:Transforms'' []
                 [Element ''ds:Transform'' [(''Algorithm'', CANONICALIZATION_METHOD)] []]],
              [],
              [Element ''ds:Transforms'' []
                 [Element ''ds:Transform''
                    [(''Algorithm'', ''http://www.w3.org/2000/09/xmldsig#enveloped-signature'')] []]]])
   \<and> (sinMarcas signedInfoId \<and> sinMarcas signedPropertiesRefId \<and> sinMarcas signedPropsId
        \<and> sinMarcas signedPropsDigest \<and> sinMarcas keyInfoId \<and> sinMarcas keyInfoDigest
        \<and> sinMarcas referenceId \<and> sinMarcas documentDigest \<longrightarrow>
      etiquetas None
        (createSignedInfoSRI signedInfoId signedPropertiesRefId signedPropsId signedPropsDigest
           keyInfoId keyInfoDigest referenceId documentDigest)
      = [''ds:SignedInfo Id=\"'' @ signedInfoId @ ''\" xmlns:ds=\"http://www.w3.org/2000/09/xmldsig#\"'',
      ''ds:CanonicalizationMethod Algorithm=\"http://www.w3.org/TR/2001/REC-xml-c14n-20010315\"'',
      ''/ds:CanonicalizationMethod'',
      ''ds:SignatureMethod Algorithm=\"http://www.w3.org/2000/09/xmldsig#rsa-sha1\"'',
      ''/ds:SignatureMethod'',
      ''ds:Reference Id=\"'' @ signedPropertiesRefId @ ''\" Type=\"http://uri.etsi.org/01903#SignedProperties\" URI=\"#'' @ signedPropsId @ ''\"'',
      ''ds:Transforms'',
      ''ds:Transform Algorithm=\"http://www.w3.org/TR/2001/REC-xml-c14n-20010315\"/'',
      ''/ds:Transforms'',
      ''ds:DigestMethod Algorithm=\"http://www.w3.org/2000/09/xmldsig#sha1\"'',
      ''/ds:DigestMethod'',
      ''ds:DigestValue'',
      ''/ds:DigestValue'',
      ''/ds:Reference'',
      ''ds:Reference URI=\"#'' @ keyInfoId @ ''\"'',
      ''ds:DigestMethod Algorithm=\"http://www.w3.org/2000/09/xmldsig#sha1\"'',
      ''/ds:DigestMethod'',
      ''ds:DigestValue'',
      ''/ds:DigestValue'',
      ''/ds:Reference'',
      ''ds:Reference Id=\"'' @ referenceId @ ''\" URI=\"#comprobante\"'',
      ''ds:Transforms'',
      ''ds:Transform Algorithm=\"http://www.w3.org/2000/09/xmldsig#enveloped-signature\"'',
      ''/ds:Transform'',
      ''/ds:Transforms'',
      ''ds:DigestMethod Algorithm=\"http://www.w3.org/2000/09/xmldsig#sha1\"'',
      ''/ds:DigestMethod'',
      ''ds:DigestValue'',
      ''/ds:DigestValue'',
      ''/ds:Reference'',
      ''/ds:SignedInfo''])"
proof (rule conjI)
  show "(let refs = elementsNamed ''ds:Reference''
                 (createSignedInfo envelopedDigest uuid referenceId' signedPropsId'
                    signedPropsDigest' keyInfoId' keyInfoDigest' sha256)
    in map (getAttribute ''URI'') refs = [Some (''#'' @ signedPropsId'), Some (''#'' @ keyInfoId'), Some []]
       \<and> map (getAttribute ''Type'') refs
           = [Some ''http://uri.etsi.org/01903#SignedProperties'', None, None]
       \<and> map transformAlgorithms refs
           = [[Some CANONICALIZATION_METHOD], [],
              [Some ''http://www.w3.org/2000/09/xmldsig#enveloped-signature'']]
       \<and> map (elementsNamed ''ds:Transforms'') refs
           = [[Element ''ds:Transforms'' []
                 [Element ''ds:Transform'' [(''Algorithm'', CANONICALIZATION_METHOD)] []]],
              [],
              [Element ''ds:Transforms'' []
                 [Element ''ds:Transform''
                    [(''Algorithm'', ''http://www.w3.org/2000/09/xmldsig#enveloped-signature'')] []]]])"
    by (simp add: createSignedInfo_def createReference_def Let_def setAttribute_def
        appendChild_def setTextContent_def createElementNS_def elementsNamed_def
        getAttribute_def transformAlgorithms_def)
next
  show "sinMarcas signedInfoId \<and> sinMarcas signedPropertiesRefId \<and> sinMarcas signedPropsId
        \<and> sinMarcas signedPropsDigest \<and> sinMarcas keyInfoId \<and> sinMarcas keyInfoDigest
        \<and> sinMarcas referenceId \<and> sinMarcas documentDigest \<longrightarrow>
      etiquetas None
        (createSignedInfoSRI signedInfoId signedPropertiesRefId signedPropsId signedPropsDigest
           keyInfoId keyInfoDigest referenceId documentDigest)
      = [''ds:SignedInfo Id=\"'' @ signedInfoId @ ''\" xmlns:ds=\"http://www.w3.org/2000/09/xmldsig#\"'',
      ''ds:CanonicalizationMethod Algorithm=\"http://www.w3.org/TR/2001/REC-xml-c14n-20010315\"'',
      ''/ds:CanonicalizationMethod'',
      ''ds:SignatureMethod Algorithm=\"http://www.w3.org/2000/09/xmldsig#rsa-sha1\"'',
      ''/ds:SignatureMethod'',
      ''ds:Reference Id=\"'' @ signedPropertiesRefId @ ''\" Type=\"http://uri.etsi.org/01903#SignedProperties\" URI=\"#'' @ signedPropsId @ ''\"'',
      ''ds:Transforms'',
      ''ds:Transform Algorithm=\"http://www.w3.org/TR/2001/REC-xml-c14n-20010315\"/'',
      ''/ds:Transforms'',
      ''ds:DigestMethod Algorithm=\"http://www.w3.org/2000/09/xmldsig#sha1\"'',
      ''/ds:DigestMethod'',
      ''ds:DigestValue'',
      ''/ds:DigestValue'',
      ''/ds:Reference'',
      ''ds:Reference URI=\"#'' @ keyInfoId @ ''\"'',
      ''ds:DigestMethod Algorithm=\"http://www.w3.org/2000/09/xmldsig#sha1\"'',
      ''/ds:DigestMethod'',
      ''ds:DigestValue'',
      ''/ds:DigestValue'',
      ''/ds:Reference'',
      ''ds:Reference Id=\"'' @ referenceId @ ''\" URI=\"#comprobante\"'',
      ''ds:Transforms'',
      ''ds:Transform Algorithm=\"http://www.w3.org/2000/09/xmldsig#enveloped-signature\"'',
      ''/ds:Transform'',
      ''/ds:Transforms'',
      ''ds:DigestMethod Algorithm=\"http://www.w3.org/2000/09/xmldsig#sha1\"'',
      ''/ds:DigestMethod'',
      ''ds:DigestValue'',
      ''/ds:DigestValue'',
      ''/ds:Reference'',
      ''/ds:SignedInfo'']"
    unfolding createSignedInfoSRI_def sinMarcas_def
    by (simp add: etiquetas_trozo etiquetas_fuera etiquetas_dentro cong: etiquetas_cong)
qed


text \<open>The hypothesis holds for identifiers and digests of the shape \<open>signXML\<close> makes.\<close>

theorem signedInfo_references_witness:
  "sinMarcas ''SI1'' \<and> sinMarcas ''SPR2'' \<and> sinMarcas ''SP3'' \<and> sinMarcas ''c3BkPQ==''
   \<and> sinMarcas ''Certificate4'' \<and> sinMarcas ''a2lkPQ=='' \<and> sinMarcas ''Reference-ID-5''
   \<and> sinMarcas ''ZGQ9PQ==''
   \<and> filter (\<lambda>t. startsWith t ''ds:Reference '' \<or> startsWith t ''ds:Transforms'')
        (etiquetas None
          (createSignedInfoSRI ''SI1'' ''SPR2'' ''SP3'' ''c3BkPQ=='' ''Certificate4'' ''a2lkPQ==''
             ''Reference-ID-5'' ''ZGQ9PQ==''))
       = [''ds:Reference Id=\"SPR2\" Type=\"http://uri.etsi.org/01903#SignedProperties\" URI=\"#SP3\"'',
          ''ds:Transforms'',
          ''ds:Reference URI=\"#Certificate4\"'',
          ''ds:Reference Id=\"Reference-ID-5\" URI=\"#comprobante\"'',
          ''ds:Transforms'']"
proof -
  have h: "sinMarcas ''SI1'' \<and> sinMarcas ''SPR2'' \<and> sinMarcas ''SP3'' \<and> sinMarcas ''c3BkPQ==''
   \<and> sinMarcas ''Certificate4'' \<and> sinMarcas ''a2lkPQ=='' \<and> sinMarcas ''Reference-ID-5''
   \<and> sinMarcas ''ZGQ9PQ==''"
    by (simp add: sinMarcas_def)
  note e = signedInfo_references [where signedInfoId = "''SI1''"
      and signedPropertiesRefId = "''SPR2''" and signedPropsId = "''SP3''"
      and signedPropsDigest = "''c3BkPQ==''" and keyInfoId = "''Certificate4''"
      and keyInfoDigest = "''a2lkPQ==''" and referenceId = "''Reference-ID-5''"
      and documentDigest = "''ZGQ9PQ==''", THEN conjunct2, THEN mp, OF h]
  have "filter (\<lambda>t. startsWith t ''ds:Reference '' \<or> startsWith t ''ds:Transforms'')
        (etiquetas None
          (createSignedInfoSRI ''SI1'' ''SPR2'' ''SP3'' ''c3BkPQ=='' ''Certificate4'' ''a2lkPQ==''
             ''Reference-ID-5'' ''ZGQ9PQ==''))
       = [''ds:Reference Id=\"SPR2\" Type=\"http://uri.etsi.org/01903#SignedProperties\" URI=\"#SP3\"'',
          ''ds:Transforms'',
          ''ds:Reference URI=\"#Certificate4\"'',
          ''ds:Reference Id=\"Reference-ID-5\" URI=\"#comprobante\"'',
          ''ds:Transforms'']"
    by (simp only: e) (simp add: startsWith_def)
  with h show ?thesis by blast
qed

text \<open>
  Reading back the hexadecimal form: \<open>Buffer.from(n.toString(16), 'hex')\<close> gives the
  minimal big-endian bytes of a positive \<open>n\<close> when the number of digits is even, and
  does so for an odd number of digits only once a \<open>0\<close> is put in front, which
  \<open>createRSAKeyValue\<close> does for the exponent and not for the modulus.
\<close>

lemma hexChar_tabla:
  "\<forall>d\<in>set [0..<16]. isHexDigit (hexChar d) \<and> hexVal (hexChar d) = d"
  by code_simp

lemma hexChar_valid: "d < 16 \<Longrightarrow> isHexDigit (hexChar d) \<and> hexVal (hexChar d) = d"
  using hexChar_tabla by simp

lemma toStringHex_digits: "list_all isHexDigit (toStringHex n)"
proof (induction n rule: toStringHex.induct)
  case (1 n)
  show ?case
  proof (cases "n < 16")
    case True
    then show ?thesis by (subst toStringHex.simps) (simp add: hexChar_valid)
  next
    case False
    with 1 show ?thesis by (subst toStringHex.simps) (simp add: hexChar_valid)
  qed
qed

lemma bufferFromHex_snoc:
  "even (length xs) \<Longrightarrow> list_all isHexDigit xs \<Longrightarrow> isHexDigit a \<Longrightarrow> isHexDigit b \<Longrightarrow>
   bufferFromHex (xs @ [a, b]) = bufferFromHex xs @ [16 * hexVal a + hexVal b]"
  by (induction xs rule: bufferFromHex.induct) simp_all

lemma toStringHex_256:
  "256 \<le> n \<Longrightarrow>
   toStringHex n = toStringHex (n div 256) @ [hexChar (n div 16 mod 16), hexChar (n mod 16)]"
proof -
  assume n: "256 \<le> n"
  then have "toStringHex n = toStringHex (n div 16) @ [hexChar (n mod 16)]"
    by (subst toStringHex.simps) simp
  moreover have "\<not> n div 16 < 16" using n by arith
  then have "toStringHex (n div 16) = toStringHex (n div 16 div 16) @ [hexChar (n div 16 mod 16)]"
    using toStringHex.simps [of "n div 16"] by simp
  moreover have "n div 16 div 16 = n div 256" by (simp add: div_mult2_eq [symmetric])
  ultimately show ?thesis by simp
qed

lemma byte_digits: "16 * (n div 16 mod 16) + n mod 16 = (n mod 256 :: nat)"
proof -
  have "n mod 256 = n mod (16 * 16)" by simp
  also have "\<dots> = n mod 16 + 16 * (n div 16 mod 16)" by (simp only: mod_mult2_eq)
  finally show ?thesis by simp
qed

lemma bufferFromHex_toStringHex:
  "0 < n \<Longrightarrow>
   (even (length (toStringHex n)) \<longrightarrow> bufferFromHex (toStringHex n) = bytesBE n)
   \<and> (odd (length (toStringHex n)) \<longrightarrow> bufferFromHex (CHR ''0'' # toStringHex n) = bytesBE n)"
proof (induction n rule: less_induct)
  case (less n)
  have b0: "bytesBE 0 = []" by (simp add: bytesBE.simps)
  have bn: "bytesBE n = bytesBE (n div 256) @ [n mod 256]"
    using less.prems by (subst bytesBE.simps) simp
  have zero: "isHexDigit (CHR ''0'')" "hexVal (CHR ''0'') = 0" by code_simp+
  show ?case
  proof (cases "n < 16")
    case True
    then have "toStringHex n = [hexChar n]" by (subst toStringHex.simps) simp
    with True bn b0 zero show ?thesis by (simp add: hexChar_valid)
  next
    case False
    note big = this
    show ?thesis
    proof (cases "n < 256")
      case True
      have d: "n div 16 < 16" using True by arith
      then have "toStringHex (n div 16) = [hexChar (n div 16)]"
        using toStringHex.simps [of "n div 16"] by simp
      with big have h: "toStringHex n = [hexChar (n div 16), hexChar (n mod 16)]"
        using toStringHex.simps [of n] by simp
      have "16 * (n div 16) + n mod 16 = n" by simp
      moreover have "n div 256 = 0" "n mod 256 = n" using True by simp_all
      ultimately show ?thesis
        using bn b0 d by (simp add: h hexChar_valid)
    next
      case False
      then have n: "256 \<le> n" by simp
      let ?m = "n div 256"
      have m: "0 < ?m" "?m < n" using n by (simp_all add: div_greater_zero_iff)
      note ih = less.IH [OF m(2) m(1)]
      note h = toStringHex_256 [OF n]
      have v: "isHexDigit (hexChar (n div 16 mod 16))" "isHexDigit (hexChar (n mod 16))"
        "16 * hexVal (hexChar (n div 16 mod 16)) + hexVal (hexChar (n mod 16)) = n mod 256"
        by (simp_all add: hexChar_valid byte_digits)
      have dig: "list_all isHexDigit (toStringHex ?m)" by (rule toStringHex_digits)
      show ?thesis
      proof (intro conjI impI)
        assume "even (length (toStringHex n))"
        then have e: "even (length (toStringHex ?m))" by (simp add: h)
        from bufferFromHex_snoc [OF e dig v(1,2)] ih e show "bufferFromHex (toStringHex n) = bytesBE n"
          by (simp add: h bn v(3))
      next
        assume "odd (length (toStringHex n))"
        then have o: "odd (length (toStringHex ?m))" by (simp add: h)
        then have e: "even (length (CHR ''0'' # toStringHex ?m))" by simp
        have dig': "list_all isHexDigit (CHR ''0'' # toStringHex ?m)" using dig zero by simp
        from bufferFromHex_snoc [OF e dig' v(1,2)] ih o
        show "bufferFromHex (CHR ''0'' # toStringHex n) = bytesBE n"
          by (simp add: h bn v(3))
      qed
    qed
  qed
qed

text \<open>
  Claim C7 asks that \<open>Modulus\<close> and \<open>Exponent\<close> be the base64 of the minimal big-endian
  unsigned bytes of the key's modulus and exponent. The code departs from it. For the key
  with modulus 187 and exponent 3, \<open>SRIXmlSigner.createKeyInfoContent\<close> writes the modulus
  with a leading zero byte (\<open>ALs=\<close> where the minimal encoding gives \<open>uw==\<close>) and the
  fixed exponent \<open>AQAB\<close> (where the key's is \<open>Aw==\<close>). For the modulus 291, whose
  hexadecimal form has three digits, \<open>XAdESSignatureService.createRSAKeyValue\<close> drops the
  last digit (\<open>Eg==\<close> where the minimal encoding gives \<open>ASM=\<close>), although it pads the
  exponent to an even number of digits.
\<close>

theorem keyInfo_modulus_exponent_evaluation:
  "createKeyInfoContent ''Certificate4'' ''TUlJ'' (Some 187) = 
       (''<ds:KeyInfo Id=\"Certificate4\" xmlns:ds=\"http://www.w3.org/2000/09/xmldsig#\">\<newline>'' @
       ''      <ds:X509Data>\<newline>'' @
       ''        <ds:X509Certificate>\<newline>'' @
       ''TUlJ\<newline>'' @
       ''</ds:X509Certificate>\<newline>'' @
       ''      </ds:X509Data>\<newline>'' @
       ''      <ds:KeyValue>\<newline>'' @
       ''        <ds:RSAKeyValue>\<newline>'' @
       ''          <ds:Modulus>\<newline>'' @
       ''ALs=\<newline>'' @
       ''</ds:Modulus>\<newline>'' @
       ''          <ds:Exponent>AQAB</ds:Exponent>\<newline>'' @
       ''        </ds:RSAKeyValue>\<newline>'' @
       ''      </ds:KeyValue>\<newline>'' @
       ''    </ds:KeyInfo>'')
   \<and> encode64 (bytesBE 187) = ''uw==''
   \<and> encode64 (bytesBE 3) = ''Aw==''
   \<and> createRSAKeyValue 291 3 =
       Element ''ds:RSAKeyValue'' []
         [Element ''ds:Modulus'' [] [Text ''\<newline>Eg==\<newline>''],
          Element ''ds:Exponent'' [] [Text ''Aw=='']]
   \<and> encode64 (bytesBE 291) = ''ASM=''"
  by code_simp

section \<open>Properties of the submission client\<close>

lemma llamadas_simps [simp]:
  "llamadas [] = []"
  "llamadas (Llamada a # tr) = a # llamadas tr"
  "llamadas (Espera d # tr) = llamadas tr"
  by (simp_all add: llamadas_def)

lemma validarLoop_desde:
  "b \<in> set (llamadas (snd (validarLoop recepcion jitter m k a le))) \<Longrightarrow> a \<le> b \<and> b < a + k"
proof (induction k arbitrary: a le)
  case 0
  then show ?case by simp
next
  case (Suc k)
  show ?case
  proof (cases "recepcion a")
    case (Respuesta r)
    show ?thesis
    proof (cases "estado r = ''RECIBIDA'' \<or> estado r = ''DEVUELTA''")
      case True
      with Respuesta Suc.prems show ?thesis by auto
    next
      case False
      with Respuesta Suc.prems
      have "b = a \<or> b \<in> set (llamadas (snd (validarLoop recepcion jitter m k (a + 1) le)))"
        by (auto simp: Let_def)
      then show ?thesis using Suc.IH [of "a + 1" le] by auto
    qed
  next
    case (Falla e)
    show ?thesis
    proof (cases "isRetryableError e")
      case False
      with Falla Suc.prems show ?thesis by simp
    next
      case True
      with Falla Suc.prems
      have "b = a \<or> b \<in> set (llamadas (snd (validarLoop recepcion jitter m k (a + 1) (Some e))))"
        by (auto simp: Let_def split: if_splits)
      then show ?thesis using Suc.IH [of "a + 1" "Some e"] by auto
    qed
  qed
qed

lemma validarLoop_longitud:
  "length (llamadas (snd (validarLoop recepcion jitter m k a le))) \<le> k"
proof (induction k arbitrary: a le)
  case 0
  then show ?case by simp
next
  case (Suc k)
  show ?case
  proof (cases "recepcion a")
    case (Respuesta r)
    then show ?thesis using Suc.IH [of "a + 1" le] by (simp add: Let_def)
  next
    case (Falla e)
    then show ?thesis using Suc.IH [of "a + 1" "Some e"] by (simp add: Let_def)
  qed
qed

lemma validarLoop_anterior:
  "b \<in> set (llamadas (snd (validarLoop recepcion jitter m k a le))) \<Longrightarrow> a < b \<Longrightarrow>
   reintentable (recepcion (b - 1)) \<or> sinClasificar (recepcion (b - 1))"
proof (induction k arbitrary: a le)
  case 0
  then show ?case by simp
next
  case (Suc k)
  show ?case
  proof (cases "recepcion a")
    case (Respuesta r)
    show ?thesis
    proof (cases "estado r = ''RECIBIDA'' \<or> estado r = ''DEVUELTA''")
      case True
      with Respuesta Suc.prems show ?thesis by auto
    next
      case False
      let ?rest = "validarLoop recepcion jitter m k (a + 1) le"
      from False Respuesta Suc.prems have b: "b \<in> set (llamadas (snd ?rest))"
        by (auto simp: Let_def)
      show ?thesis
      proof (cases "b = a + 1")
        case True
        with Respuesta False show ?thesis by (simp add: sinClasificar_def)
      next
        case neq: False
        with validarLoop_desde [OF b] have "a + 1 < b" by simp
        from Suc.IH [OF b this] show ?thesis .
      qed
    qed
  next
    case (Falla e)
    show ?thesis
    proof (cases "isRetryableError e")
      case False
      with Falla Suc.prems show ?thesis by simp
    next
      case True
      let ?rest = "validarLoop recepcion jitter m k (a + 1) (Some e)"
      from True Falla Suc.prems have b: "b \<in> set (llamadas (snd ?rest))"
        by (auto simp: Let_def split: if_splits)
      show ?thesis
      proof (cases "b = a + 1")
        case True
        with Falla \<open>isRetryableError e\<close> show ?thesis by (simp add: reintentable_def)
      next
        case False
        with validarLoop_desde [OF b] have "a + 1 < b" by simp
        from Suc.IH [OF b this] show ?thesis .
      qed
    qed
  qed
qed

lemma validarLoop_respuesta:
  "b \<in> set (llamadas (snd (validarLoop recepcion jitter m k a le))) \<Longrightarrow>
   recepcion b = Respuesta r \<Longrightarrow> estado r = ''RECIBIDA'' \<or> estado r = ''DEVUELTA'' \<Longrightarrow>
   fst (validarLoop recepcion jitter m k a le) = Inr r
   \<and> (\<forall>b'\<in>set (llamadas (snd (validarLoop recepcion jitter m k a le))). b' \<le> b)
   \<and> last (snd (validarLoop recepcion jitter m k a le)) = Llamada b"
proof (induction k arbitrary: a le)
  case 0
  then show ?case by simp
next
  case (Suc k)
  from validarLoop_desde [OF Suc.prems(1)] have ab: "a \<le> b" by simp
  show ?case
  proof (cases "b = a")
    case True
    with Suc.prems show ?thesis by auto
  next
    case ne: False
    show ?thesis
    proof (cases "recepcion a")
      case (Respuesta r')
      show ?thesis
      proof (cases "estado r' = ''RECIBIDA'' \<or> estado r' = ''DEVUELTA''")
        case True
        with Respuesta Suc.prems ne show ?thesis by auto
      next
        case False
        let ?rest = "validarLoop recepcion jitter m k (a + 1) le"
        from False Respuesta Suc.prems ne have b: "b \<in> set (llamadas (snd ?rest))"
          by (auto simp: Let_def)
        then have nn: "snd ?rest \<noteq> []" by auto
        from Suc.IH [OF b Suc.prems(2,3)] nn ab False Respuesta show ?thesis
          by (auto simp: Let_def)
      qed
    next
      case (Falla e)
      show ?thesis
      proof (cases "isRetryableError e")
        case False
        with Falla Suc.prems ne show ?thesis by auto
      next
        case True
        let ?rest = "validarLoop recepcion jitter m k (a + 1) (Some e)"
        from True Falla Suc.prems ne have b: "b \<in> set (llamadas (snd ?rest))"
          by (auto simp: Let_def split: if_splits)
        then have nn: "snd ?rest \<noteq> []" by auto
        from Suc.IH [OF b Suc.prems(2,3)] nn ab True Falla show ?thesis
          by (auto simp: Let_def)
      qed
    qed
  qed
qed

text \<open>
  What holds of the attempts of \<open>validarComprobante\<close> for every reception, every
  \<open>maxRetries\<close> and every attempt \<open>b\<close> it makes. A response with \<open>RECIBIDA\<close> or \<open>DEVUELTA\<close>
  is returned as it is, its call is the last event and no later attempt is made. Every
  attempt lies between 1 and \<open>maxRetries\<close>, so there are at most \<open>maxRetries\<close> of them. An
  attempt after the first follows either a failure that \<open>isRetryableError\<close> accepts or a
  response whose \<open>estado\<close> is neither \<open>RECIBIDA\<close> nor \<open>DEVUELTA\<close>.
\<close>

lemma validarComprobante_intentos:
  "(b \<in> set (llamadas (snd (validarComprobante inicio recepcion jitter maxRetries)))
      \<and> recepcion b = Respuesta r \<and> (estado r = ''RECIBIDA'' \<or> estado r = ''DEVUELTA'') \<longrightarrow>
        fst (validarComprobante inicio recepcion jitter maxRetries) = Inr r
        \<and> (\<forall>b'\<in>set (llamadas (snd (validarComprobante inicio recepcion jitter maxRetries))). b' \<le> b)
        \<and> last (snd (validarComprobante inicio recepcion jitter maxRetries)) = Llamada b)
   \<and> (b \<in> set (llamadas (snd (validarComprobante inicio recepcion jitter maxRetries))) \<longrightarrow>
        1 \<le> b \<and> b \<le> maxRetries
        \<and> (1 < b \<longrightarrow> reintentable (recepcion (b - 1)) \<or> sinClasificar (recepcion (b - 1))))
   \<and> length (llamadas (snd (validarComprobante inicio recepcion jitter maxRetries))) \<le> maxRetries"
proof (cases inicio)
  case None
  then show ?thesis
    unfolding validarComprobante_def
    using validarLoop_respuesta [of b recepcion jitter maxRetries maxRetries 1 None r]
      validarLoop_desde [of b recepcion jitter maxRetries maxRetries 1 None]
      validarLoop_anterior [of b recepcion jitter maxRetries maxRetries 1 None]
      validarLoop_longitud [of recepcion jitter maxRetries maxRetries 1 None]
    by auto
next
  case (Some e)
  then show ?thesis by (simp add: validarComprobante_def)
qed

text \<open>A reception that hangs up twice and rejects at the third attempt: two retries with
  their delays, then the rejected response with its messages.\<close>

lemma validarComprobante_inestable:
  "validarComprobante None recepcionInestable (\<lambda>attempt. 7) 3
     = (Inr respuestaDevuelta, [Llamada 1, Espera 1007, Llamada 2, Espera 2007, Llamada 3])"
  by code_simp

text \<open>
  Claim C8 says that a rejected document is returned at once, which holds, and that only
  a failure classified as retryable causes another attempt. The code departs from the
  second part. \<open>processValidarResponse\<close> passes on the \<open>estado\<close> the service sent, and the
  loop has a return for \<open>RECIBIDA\<close> and for \<open>DEVUELTA\<close> only: on any other \<open>estado\<close> it makes
  the next attempt at once, with no failure and no delay. For a service that answers
  \<open>EN PROCESO\<close>, three attempts are made and the call ends with the error raised for
  exhausted attempts, which has no last error to report.
\<close>

theorem validarComprobante_estado_sin_clasificar:
  "validarComprobante None (\<lambda>attempt. Respuesta respuestaEnProceso) (\<lambda>attempt. 7) 3
     = (Inl (FalloTrasIntentos 3 None), [Llamada 1, Llamada 2, Llamada 3])"
  by code_simp

lemma esperaLoop_no_pendiente:
  "esperaLoop fuel env maxEspera intervalo i t = Some (Inr r, n) \<Longrightarrow> \<not> pendiente r"
proof (induction fuel arbitrary: i t)
  case 0
  then show ?case by simp
next
  case (Suc fuel)
  then show ?case
    by (auto simp: Let_def pendiente_def split: if_splits intento.splits list.splits)
qed

lemma esperaLoop_retorna:
  assumes "0 < intervalo"
  shows "maxEspera - t \<le> int fuel * intervalo \<Longrightarrow>
         esperaLoop (Suc fuel) env maxEspera intervalo i t \<noteq> None"
proof (induction fuel arbitrary: i t)
  case 0
  then show ?case by simp
next
  case (Suc fuel)
  have step: "esperaLoop (Suc fuel) env maxEspera intervalo (i + 1)
        (t + int (duracion env i) + intervalo + int (demora env i)) \<noteq> None"
    using Suc.prems assms by (intro Suc.IH) (simp add: algebra_simps)
  show ?case
    using step
    by (subst esperaLoop.simps) (auto simp: Let_def split: intento.splits list.splits simp del: esperaLoop.simps)
qed

lemma reloj_mono: "0 \<le> intervalo \<Longrightarrow> i \<le> j \<Longrightarrow> reloj env intervalo i \<le> reloj env intervalo j"
proof (induction j)
  case 0
  then show ?case by simp
next
  case (Suc j)
  then show ?case by (cases "i = Suc j") auto
qed

lemma esperaLoop_continua:
  assumes "continua env maxEspera intervalo i" and "reloj env intervalo i < maxEspera"
  shows "esperaLoop (Suc fuel) env maxEspera intervalo i (reloj env intervalo i)
       = esperaLoop fuel env maxEspera intervalo (Suc i) (reloj env intervalo (Suc i))"
  using assms
  by (auto simp: continua_def pendiente_def Let_def split: intento.splits list.splits)

lemma esperaLoop_avanza:
  assumes "0 \<le> intervalo"
  shows "(\<forall>k. i \<le> k \<and> k < j \<longrightarrow> continua env maxEspera intervalo k) \<Longrightarrow> i \<le> j \<Longrightarrow>
         reloj env intervalo j < maxEspera \<Longrightarrow>
         esperaLoop (j - i + fuel) env maxEspera intervalo i (reloj env intervalo i)
           = esperaLoop fuel env maxEspera intervalo j (reloj env intervalo j)"
proof (induction "j - i" arbitrary: i)
  case 0
  then show ?case by simp
next
  case (Suc d)
  have ti: "reloj env intervalo i < maxEspera"
    using reloj_mono [OF assms Suc.prems(2), of env] Suc.prems(3) by simp
  from Suc have lt: "Suc i \<le> j" and d: "d = j - Suc i" by auto
  from Suc.prems lt have s: "continua env maxEspera intervalo i" by auto
  have "esperaLoop (j - Suc i + fuel) env maxEspera intervalo (Suc i) (reloj env intervalo (Suc i))
        = esperaLoop fuel env maxEspera intervalo j (reloj env intervalo j)"
    using Suc.prems lt d by (intro Suc.hyps(1)) auto
  moreover have "j - i + fuel = Suc (j - Suc i + fuel)" using lt by simp
  ultimately show ?case by (simp only: esperaLoop_continua [OF s ti])
qed

lemma esperaLoop_respuesta:
  assumes "0 \<le> intervalo" and "\<forall>k<j. continua env maxEspera intervalo k"
    and "reloj env intervalo j < maxEspera" and "j < fuel"
    and "consulta env j = Respuesta r" and "\<not> pendiente r"
  shows "esperaLoop fuel env maxEspera intervalo 0 0 = Some (Inr r, j + 1)"
proof -
  from assms(4) obtain f where f: "fuel = j - 0 + Suc f" by (metis Suc_diff_Suc add.commute diff_zero le_add_diff_inverse less_imp_le_nat add_Suc_right)
  have "esperaLoop (j - 0 + Suc f) env maxEspera intervalo 0 (reloj env intervalo 0)
      = esperaLoop (Suc f) env maxEspera intervalo j (reloj env intervalo j)"
    using assms(2,3) by (intro esperaLoop_avanza [OF assms(1)]) auto
  moreover have "esperaLoop (Suc f) env maxEspera intervalo j (reloj env intervalo j) = Some (Inr r, j + 1)"
    using assms(3,5,6) by (auto simp: pendiente_def Let_def split: list.splits)
  ultimately show ?thesis using f by simp
qed

lemma esperaLoop_lanza:
  assumes "0 \<le> intervalo" and "\<forall>k<j. continua env maxEspera intervalo k"
    and "reloj env intervalo j < maxEspera" and "j < fuel"
    and "consulta env j = Falla e" and "\<not> continua env maxEspera intervalo j"
  shows "esperaLoop fuel env maxEspera intervalo 0 0 = Some (Inl (Lanzado e), j + 1)"
proof -
  from assms(4) obtain f where f: "fuel = j - 0 + Suc f" by (metis Suc_diff_Suc add.commute diff_zero le_add_diff_inverse less_imp_le_nat add_Suc_right)
  have "esperaLoop (j - 0 + Suc f) env maxEspera intervalo 0 (reloj env intervalo 0)
      = esperaLoop (Suc f) env maxEspera intervalo j (reloj env intervalo j)"
    using assms(2,3) by (intro esperaLoop_avanza [OF assms(1)]) auto
  moreover have "esperaLoop (Suc f) env maxEspera intervalo j (reloj env intervalo j)
      = Some (Inl (Lanzado e), j + 1)"
    using assms(3,5,6) by (auto simp: continua_def Let_def)
  ultimately show ?thesis using f by simp
qed

lemma esperaLoop_timeout:
  "(\<forall>k. i \<le> k \<and> k < n \<longrightarrow> continua env maxEspera intervalo k \<and> reloj env intervalo k < maxEspera) \<Longrightarrow>
   i \<le> n \<Longrightarrow> \<not> reloj env intervalo n < maxEspera \<Longrightarrow> n - i < fuel \<Longrightarrow>
   esperaLoop fuel env maxEspera intervalo i (reloj env intervalo i) = Some (Inl TimeoutAutorizacion, n)"
proof (induction fuel arbitrary: i)
  case 0
  then show ?case by simp
next
  case (Suc fuel)
  show ?case
  proof (cases "i = n")
    case True
    with Suc.prems show ?thesis by simp
  next
    case False
    with Suc.prems have s: "continua env maxEspera intervalo i" and ti: "reloj env intervalo i < maxEspera"
      and lt: "Suc i \<le> n" by auto
    have "esperaLoop fuel env maxEspera intervalo (Suc i) (reloj env intervalo (Suc i))
        = Some (Inl TimeoutAutorizacion, n)"
      using Suc.prems lt by (intro Suc.IH) auto
    then show ?thesis by (simp only: esperaLoop_continua [OF s ti])
  qed
qed

lemma reloj_crece: "0 < intervalo \<Longrightarrow> int n * intervalo \<le> reloj env intervalo n"
  by (induction n) (auto simp: algebra_simps)

lemma terminal_no_pendiente: "terminal r \<Longrightarrow> \<not> pendiente r"
  by (auto simp: terminal_def pendiente_def split: list.splits)

lemma reloj_AU: "reloj entornoAutorizado 5000 k = int k * 5203"
  by (induction k) (simp_all add: entornoAutorizado_def algebra_simps)

lemma reloj_PE: "reloj entornoPendiente 5000 k = int k * 5203"
  by (induction k) (simp_all add: entornoPendiente_def algebra_simps)

lemma reloj_CA: "reloj entornoCaido 5000 k = int k * 5203"
  by (induction k) (simp_all add: entornoCaido_def algebra_simps)

text \<open>
  Claim C9, as amended. With a positive interval the poll loop ends (given fuel for
  \<open>maxEspera / intervalo\<close> iterations), and it never returns a response that is pending or
  without records. An iteration goes on to the next one when its call gives a response
  that is pending or without records, and also when its call throws while the time elapsed
  after the call, plus the interval, is below \<open>maxEspera\<close>. At the first iteration \<open>j\<close> that
  does not go on: if it starts before \<open>maxEspera\<close> has elapsed and its call gives a response
  that is neither pending nor without records (a final one, \<open>AUTORIZADO\<close> or
  \<open>NO AUTORIZADO\<close>, is such a response), that response is returned; if it starts before
  \<open>maxEspera\<close> has elapsed and its call throws, the error of the call is thrown again; and
  if it starts once \<open>maxEspera\<close> has elapsed, the timeout error is thrown. When every
  iteration goes on, the timeout error is thrown at the first iteration that starts once
  \<open>maxEspera\<close> has elapsed.
\<close>

theorem poll_loop:
  assumes "0 < intervalo"
  shows "(maxEspera \<le> int fuel * intervalo \<longrightarrow>
            autorizacionComprobanteConEspera (Suc fuel) env maxEspera intervalo \<noteq> None)
       \<and> (autorizacionComprobanteConEspera fuel env maxEspera intervalo = Some (Inr r, n) \<longrightarrow>
            \<not> pendiente r)
       \<and> (terminal r \<longrightarrow> \<not> pendiente r)
       \<and> ((\<forall>k<j. continua env maxEspera intervalo k) \<and> reloj env intervalo j < maxEspera
            \<and> j < fuel \<and> consulta env j = Respuesta r \<and> \<not> pendiente r \<longrightarrow>
            autorizacionComprobanteConEspera fuel env maxEspera intervalo = Some (Inr r, j + 1))
       \<and> ((\<forall>k<j. continua env maxEspera intervalo k) \<and> reloj env intervalo j < maxEspera
            \<and> j < fuel \<and> consulta env j = Falla e \<and> \<not> continua env maxEspera intervalo j \<longrightarrow>
            autorizacionComprobanteConEspera fuel env maxEspera intervalo
              = Some (Inl (Lanzado e), j + 1))
       \<and> ((\<forall>k<j. continua env maxEspera intervalo k \<and> reloj env intervalo k < maxEspera)
            \<and> \<not> reloj env intervalo j < maxEspera \<and> j < fuel \<longrightarrow>
            autorizacionComprobanteConEspera fuel env maxEspera intervalo
              = Some (Inl TimeoutAutorizacion, j))
       \<and> ((\<forall>k. continua env maxEspera intervalo k) \<and> maxEspera \<le> int fuel * intervalo \<longrightarrow>
            (\<exists>m. autorizacionComprobanteConEspera (Suc fuel) env maxEspera intervalo
                    = Some (Inl TimeoutAutorizacion, m)
                 \<and> maxEspera \<le> reloj env intervalo m
                 \<and> (\<forall>k<m. reloj env intervalo k < maxEspera)))"
proof -
  have i0: "0 \<le> intervalo" using assms by simp
  have c1: "maxEspera \<le> int fuel * intervalo \<longrightarrow>
            autorizacionComprobanteConEspera (Suc fuel) env maxEspera intervalo \<noteq> None"
    unfolding autorizacionComprobanteConEspera_def
    using esperaLoop_retorna [OF assms, of maxEspera 0 fuel env 0] by simp
  have c2: "autorizacionComprobanteConEspera fuel env maxEspera intervalo = Some (Inr r, n) \<longrightarrow>
            \<not> pendiente r"
    unfolding autorizacionComprobanteConEspera_def using esperaLoop_no_pendiente by blast
  have c3: "terminal r \<longrightarrow> \<not> pendiente r" using terminal_no_pendiente by blast
  have c4: "(\<forall>k<j. continua env maxEspera intervalo k) \<and> reloj env intervalo j < maxEspera
            \<and> j < fuel \<and> consulta env j = Respuesta r \<and> \<not> pendiente r \<longrightarrow>
            autorizacionComprobanteConEspera fuel env maxEspera intervalo = Some (Inr r, j + 1)"
    unfolding autorizacionComprobanteConEspera_def using esperaLoop_respuesta [OF i0] by blast
  have c5: "(\<forall>k<j. continua env maxEspera intervalo k) \<and> reloj env intervalo j < maxEspera
            \<and> j < fuel \<and> consulta env j = Falla e \<and> \<not> continua env maxEspera intervalo j \<longrightarrow>
            autorizacionComprobanteConEspera fuel env maxEspera intervalo
              = Some (Inl (Lanzado e), j + 1)"
    unfolding autorizacionComprobanteConEspera_def using esperaLoop_lanza [OF i0] by blast
  have c6: "(\<forall>k<j. continua env maxEspera intervalo k \<and> reloj env intervalo k < maxEspera)
            \<and> \<not> reloj env intervalo j < maxEspera \<and> j < fuel \<longrightarrow>
            autorizacionComprobanteConEspera fuel env maxEspera intervalo
              = Some (Inl TimeoutAutorizacion, j)"
  proof
    assume h: "(\<forall>k<j. continua env maxEspera intervalo k \<and> reloj env intervalo k < maxEspera)
            \<and> \<not> reloj env intervalo j < maxEspera \<and> j < fuel"
    have "esperaLoop fuel env maxEspera intervalo 0 (reloj env intervalo 0)
        = Some (Inl TimeoutAutorizacion, j)"
      using h by (intro esperaLoop_timeout) auto
    then show "autorizacionComprobanteConEspera fuel env maxEspera intervalo
              = Some (Inl TimeoutAutorizacion, j)"
      unfolding autorizacionComprobanteConEspera_def by simp
  qed
  have c7: "(\<forall>k. continua env maxEspera intervalo k) \<and> maxEspera \<le> int fuel * intervalo \<longrightarrow>
            (\<exists>m. autorizacionComprobanteConEspera (Suc fuel) env maxEspera intervalo
                    = Some (Inl TimeoutAutorizacion, m)
                 \<and> maxEspera \<le> reloj env intervalo m
                 \<and> (\<forall>k<m. reloj env intervalo k < maxEspera))"
  proof
    assume h: "(\<forall>k. continua env maxEspera intervalo k) \<and> maxEspera \<le> int fuel * intervalo"
    define m where "m = (LEAST m. \<not> reloj env intervalo m < maxEspera)"
    have ex: "\<not> reloj env intervalo fuel < maxEspera"
      using reloj_crece [OF assms, of fuel env] h by simp
    then have m: "\<not> reloj env intervalo m < maxEspera"
      unfolding m_def by (rule LeastI)
    have le: "m \<le> fuel" unfolding m_def using ex by (rule Least_le)
    have before: "\<forall>k<m. reloj env intervalo k < maxEspera"
      unfolding m_def using not_less_Least by blast
    have "esperaLoop (Suc fuel) env maxEspera intervalo 0 (reloj env intervalo 0)
        = Some (Inl TimeoutAutorizacion, m)"
      using h before m le by (intro esperaLoop_timeout) auto
    with m before
    show "\<exists>m. autorizacionComprobanteConEspera (Suc fuel) env maxEspera intervalo
                    = Some (Inl TimeoutAutorizacion, m)
                 \<and> maxEspera \<le> reloj env intervalo m
                 \<and> (\<forall>k<m. reloj env intervalo k < maxEspera)"
      unfolding autorizacionComprobanteConEspera_def by (intro exI [of _ m]) auto
  qed
  from c1 c2 c3 c4 c5 c6 c7 show ?thesis by blast
qed

text \<open>The hypotheses hold with a wait of 60 seconds and an interval of 5 seconds: for the
  environment authorized at the fourth call, for the one pending for ever, and for the one
  whose calls all throw, where the twelfth call ends with its own error.\<close>

theorem poll_loop_witness:
  "(0::int) < 5000
   \<and> (60000::int) \<le> int 12 * 5000
   \<and> continua entornoAutorizado 60000 5000 0 \<and> continua entornoAutorizado 60000 5000 1
   \<and> continua entornoAutorizado 60000 5000 2
   \<and> reloj entornoAutorizado 5000 3 < 60000
   \<and> consulta entornoAutorizado 3 = Respuesta (respuestaDe [''AUTORIZADO''])
   \<and> terminal (respuestaDe [''AUTORIZADO''])
   \<and> \<not> pendiente (respuestaDe [''AUTORIZADO''])
   \<and> autorizacionComprobanteConEspera 13 entornoAutorizado 60000 5000
       = Some (Inr (respuestaDe [''AUTORIZADO'']), 4)
   \<and> autorizacionComprobanteConEspera 13 entornoPendiente 60000 5000
       = Some (Inl TimeoutAutorizacion, 12)
   \<and> reloj entornoCaido 5000 11 < 60000
   \<and> consulta entornoCaido 11 = Falla errorRed
   \<and> \<not> continua entornoCaido 60000 5000 11
   \<and> autorizacionComprobanteConEspera 13 entornoCaido 60000 5000
       = Some (Inl (Lanzado errorRed), 12)"
proof -
  have i: "(0::int) < 5000" by simp
  have f: "(60000::int) \<le> int 12 * 5000" by simp
  note p = poll_loop [OF i, where maxEspera = 60000]
  have a0: "continua entornoAutorizado 60000 5000 0"
    by (simp add: continua_def entornoAutorizado_def pendiente_def respuestaDe_def)
  have a1: "continua entornoAutorizado 60000 5000 1"
    by (simp add: continua_def entornoAutorizado_def pendiente_def respuestaDe_def)
  have "consulta entornoAutorizado 2 = Falla errorRed" "duracion entornoAutorizado 2 = 200"
    by (simp_all add: entornoAutorizado_def)
  then have a2: "continua entornoAutorizado 60000 5000 2"
    by (simp add: continua_def reloj_AU)
  have as: "\<forall>k<3. continua entornoAutorizado 60000 5000 k"
    using a0 a1 a2 by (auto simp: less_Suc_eq numeral_3_eq_3 numeral_2_eq_2)
  have at: "reloj entornoAutorizado 5000 3 < 60000" by (simp add: reloj_AU)
  have ac: "consulta entornoAutorizado 3 = Respuesta (respuestaDe [''AUTORIZADO''])"
    by (simp add: entornoAutorizado_def)
  have tm: "terminal (respuestaDe [''AUTORIZADO''])"
    by (simp add: terminal_def respuestaDe_def)
  have np: "\<not> pendiente (respuestaDe [''AUTORIZADO''])"
    using p [where r = "respuestaDe [''AUTORIZADO'']"] tm by blast
  have ar: "autorizacionComprobanteConEspera 13 entornoAutorizado 60000 5000
       = Some (Inr (respuestaDe [''AUTORIZADO'']), 4)"
    using p [where fuel = 13 and env = entornoAutorizado and j = 3
               and r = "respuestaDe [''AUTORIZADO'']"] as at ac np
    by simp
  have ps: "\<forall>k. continua entornoPendiente 60000 5000 k"
    by (simp add: continua_def entornoPendiente_def pendiente_def respuestaDe_def)
  from p [where fuel = 12 and env = entornoPendiente] ps f
  obtain m where m: "autorizacionComprobanteConEspera (Suc 12) entornoPendiente 60000 5000
        = Some (Inl TimeoutAutorizacion, m)"
    by blast
  have pt: "\<forall>k<12. continua entornoPendiente 60000 5000 k \<and> reloj entornoPendiente 5000 k < 60000"
    using ps by (auto simp: reloj_PE)
  have pr: "autorizacionComprobanteConEspera 13 entornoPendiente 60000 5000
       = Some (Inl TimeoutAutorizacion, 12)"
    using p [where fuel = 13 and env = entornoPendiente and j = 12] pt
    by (simp add: reloj_PE)
  have cd: "consulta entornoCaido k = Falla errorRed" "duracion entornoCaido k = 200" for k
    by (simp_all add: entornoCaido_def)
  have cs: "\<forall>k<11. continua entornoCaido 60000 5000 k"
    by (auto simp: continua_def reloj_CA cd)
  have ct: "reloj entornoCaido 5000 11 < 60000" by (simp add: reloj_CA)
  have cc: "consulta entornoCaido 11 = Falla errorRed" by (rule cd)
  have cn: "\<not> continua entornoCaido 60000 5000 11"
    by (simp add: continua_def reloj_CA cd)
  have cr: "autorizacionComprobanteConEspera 13 entornoCaido 60000 5000
       = Some (Inl (Lanzado errorRed), 12)"
    using p [where fuel = 13 and env = entornoCaido and j = 11 and e = errorRed] cs ct cc cn
    by simp
  from i f a0 a1 a2 at ac tm np ar pr ct cc cn cr show ?thesis by blast
qed

text \<open>
  Claim C9 as stated fails: when a call throws and \<open>maxEspera\<close> has elapsed by then without
  a final state, the loop throws the error of the call, not the timeout error. Here the
  first call throws after 61 seconds, with a wait of 60 seconds.
\<close>

theorem poll_loop_counterexample:
  "autorizacionComprobanteConEspera 13 entornoLento 60000 5000 = Some (Inl (Lanzado errorRed), 1)
   \<and> (60000 :: int) \<le> int (duracion entornoLento 0)"
  using esperaLoop.simps(2) [of 12 entornoLento 60000 5000 0 0]
  by (simp add: autorizacionComprobanteConEspera_def entornoLento_def Let_def errorRed_def)

end
